theory Spec2Isabelle
  imports Complex_Main "HOL-Library.Multiset"
begin

section \<open>Python strings\<close>

text \<open>
  A Python \<^verbatim>\<open>str\<close> is a sequence of Unicode code points. A code point is a natural
  number, so that \<^verbatim>\<open>"\xa0"\<close> is the one-element list \<open>[160]\<close> and the checks of
  \<^verbatim>\<open>clean_text\<close> on the ranges \<^verbatim>\<open>\x20-\x7E\<close> are comparisons of numbers.
\<close>

type_synonym uchar = nat
type_synonym pystr = "uchar list"

definition str :: "string \<Rightarrow> pystr" where
  "str s = map of_char s"

text \<open>
  \<^verbatim>\<open>str.isspace\<close> for one code point: the characters that \<^verbatim>\<open>str.strip()\<close> and
  \<^verbatim>\<open>str.split()\<close> (both without argument) treat as whitespace.
\<close>

definition py_isspace :: "uchar \<Rightarrow> bool" where
  "py_isspace c =
     ((9 \<le> c \<and> c \<le> 13) \<or> (28 \<le> c \<and> c \<le> 32) \<or> c = 133 \<or> c = 160 \<or> c = 5760 \<or>
      (8192 \<le> c \<and> c \<le> 8202) \<or> c = 8232 \<or> c = 8233 \<or> c = 8239 \<or> c = 8287 \<or>
      c = 12288)"

definition py_strip :: "pystr \<Rightarrow> pystr" where
  "py_strip t = rev (dropWhile py_isspace (rev (dropWhile py_isspace t)))"

text \<open>\<^verbatim>\<open>text.replace(a, b)\<close> for one-character strings \<open>a\<close> and \<open>b\<close>.\<close>

definition py_replace_char :: "uchar \<Rightarrow> uchar \<Rightarrow> pystr \<Rightarrow> pystr" where
  "py_replace_char a b t = map (\<lambda>c. if c = a then b else c) t"

text \<open>
  \<^verbatim>\<open>re.sub(pattern, repl, text)\<close> for a pattern \<^verbatim>\<open>[class]{k,}\<close> (\<^verbatim>\<open>+\<close> is
  \<open>k = 1\<close>): scanning from the left, a maximal run of at least \<open>k\<close> characters of the
  class is replaced by \<open>repl\<close> and the scan goes on behind the run; a character at which
  no such run starts is kept.
\<close>

function re_sub_runs :: "nat \<Rightarrow> (uchar \<Rightarrow> bool) \<Rightarrow> pystr \<Rightarrow> pystr \<Rightarrow> pystr" where
  "re_sub_runs k P repl [] = []"
| "re_sub_runs k P repl (c # cs) =
     (if P c \<and> k \<le> length (takeWhile P (c # cs))
      then repl @ re_sub_runs k P repl (dropWhile P cs)
      else c # re_sub_runs k P repl cs)"
  by pat_completeness auto
termination
  by (relation "measure (\<lambda>(k, P, repl, t). length t)")
     (auto simp: length_dropWhile_le less_Suc_eq_le)

text \<open>\<^verbatim>\<open>text.split()\<close>: the maximal runs of non-whitespace characters, in order.\<close>

function py_split :: "pystr \<Rightarrow> pystr list" where
  "py_split t =
     (case dropWhile py_isspace t of
        [] \<Rightarrow> []
      | c # cs \<Rightarrow> (c # takeWhile (\<lambda>x. \<not> py_isspace x) cs)
                  # py_split (dropWhile (\<lambda>x. \<not> py_isspace x) cs))"
  by pat_completeness auto
termination
proof (relation "measure length", goal_cases)
  case 1
  show ?case by simp
next
  case (2 t c cs)
  have "length (dropWhile (\<lambda>x. \<not> py_isspace x) cs) \<le> length cs"
    by (rule length_dropWhile_le)
  moreover have "length (dropWhile py_isspace t) \<le> length t"
    by (rule length_dropWhile_le)
  ultimately show ?case using 2 by simp
qed

declare py_split.simps [simp del]

text \<open>\<^verbatim>\<open>sep.join(xs)\<close>.\<close>

fun py_join :: "pystr \<Rightarrow> pystr list \<Rightarrow> pystr" where
  "py_join sep [] = []"
| "py_join sep [x] = x"
| "py_join sep (x # y # ys) = x @ sep @ py_join sep (y # ys)"

text \<open>
  \<^verbatim>\<open>xs[i:j]\<close> with integer bounds: a negative bound counts from the end, and both
  bounds are clipped to the list.
\<close>

definition py_slice :: "'a list \<Rightarrow> int \<Rightarrow> int \<Rightarrow> 'a list" where
  "py_slice xs i j =
     (let n = int (length xs);
          lo = (if i < 0 then max (i + n) 0 else min i n);
          hi = (if j < 0 then max (j + n) 0 else min j n)
      in take (nat (hi - lo)) (drop (nat lo) xs))"

section \<open>The chunker (\<^verbatim>\<open>src/utils/chunker.py\<close>)\<close>

definition clean_text :: "pystr \<Rightarrow> pystr" where
  "clean_text t0 =
     (let t1 = py_replace_char 160 32 t0;
          t2 = re_sub_runs 1 (\<lambda>c. \<not> ((32 \<le> c \<and> c \<le> 126) \<or> c = 10)) [32] t1;
          t3 = re_sub_runs 2 (\<lambda>c. c = 32) [32] t2;
          t4 = re_sub_runs 2 (\<lambda>c. c = 10) [10] t3
      in py_strip t4)"

text \<open>
  The \<^verbatim>\<open>while\<close> loop of \<^verbatim>\<open>chunker\<close>; \<open>sz\<close> is its \<^verbatim>\<open>size\<close> and \<open>stop\<close> its
  \<^verbatim>\<open>end\<close>. \<open>sz\<close> and \<open>overlap\<close> are Python integers that
  come from the settings, and nothing in the code relates them: the loop need not end,
  and \<open>None\<close> is the run that never returns.
\<close>

partial_function (option) chunker_loop ::
  "pystr list \<Rightarrow> int \<Rightarrow> int \<Rightarrow> int \<Rightarrow> pystr list \<Rightarrow> pystr list option" where
  "chunker_loop seq sz overlap start chunks =
     (if start < int (length seq) then
        (let stop = start + sz;
             chunk = py_slice seq start stop;
             chunks' = chunks @ [py_join [32] chunk]
         in if stop \<ge> int (length seq) then Some chunks'
            else chunker_loop seq sz overlap (start + (sz - overlap)) chunks')
      else Some chunks)"

declare chunker_loop.simps [code]

definition chunker :: "pystr \<Rightarrow> int \<Rightarrow> int \<Rightarrow> pystr list option" where
  "chunker t sz overlap = chunker_loop (py_split (clean_text t)) sz overlap 0 []"

subsection \<open>What the cleaned text looks like\<close>

text \<open>
  The shape that one pass of \<^verbatim>\<open>clean_text\<close> leaves: only printable ASCII and
  newlines, no two spaces and no two newlines in a row, no whitespace at either end.
\<close>

fun no_run2 :: "uchar \<Rightarrow> pystr \<Rightarrow> bool" where
  "no_run2 a (x # y # zs) = (\<not> (x = a \<and> y = a) \<and> no_run2 a (y # zs))"
| "no_run2 a zs = True"

definition printable_or_newline :: "uchar \<Rightarrow> bool" where
  "printable_or_newline c = ((32 \<le> c \<and> c \<le> 126) \<or> c = 10)"

definition no_outer_space :: "pystr \<Rightarrow> bool" where
  "no_outer_space t = (t = [] \<or> (\<not> py_isspace (hd t) \<and> \<not> py_isspace (last t)))"

subsection \<open>The windows of the sliding-window description\<close>

text \<open>
  The token list that \<^verbatim>\<open>chunker\<close> slices (its \<^verbatim>\<open>seq\<close>), and the window the
  description of the chunker speaks of: the tokens at positions \<open>k * (s - v)\<close> through
  \<open>k * (s - v) + s - 1\<close>, cut off at the end of the list. \<open>window\<close> is written from
  that description, not from the loop; the theorems below compare the two.
\<close>

definition chunker_tokens :: "pystr \<Rightarrow> pystr list" where
  "chunker_tokens t = py_split (clean_text t)"

definition window :: "pystr list \<Rightarrow> nat \<Rightarrow> nat \<Rightarrow> nat \<Rightarrow> pystr list" where
  "window toks s v k = take s (drop (k * (s - v)) toks)"

section \<open>Exceptions and results (\<^verbatim>\<open>src/exceptions/exceptions.py\<close>)\<close>

text \<open>
  The exception classes the document pipeline raises; each derives from \<^verbatim>\<open>Exception\<close>
  directly, so a handler for one class catches no other. \<open>ValueError\<close> is Python's own,
  and \<open>OtherError\<close> is any other exception a library call raises.
\<close>

datatype exn =
    FileTypeError | EmptyDocumentError | ChunkingError | EmbeddingError | FileProcessingError
  | VectorCollectionError | PointError | DocumentRepositoryError | DocumentNotFoundError
  | ValueError | OtherError

text \<open>
  What a call does: it returns a value, raises an exception, or never returns (the
  chunker's loop is the only place where that can happen).
\<close>

datatype 'a outcome = Return 'a | Raise exn | Diverge

section \<open>Documents, payloads and points (\<^verbatim>\<open>src/models/document_model.py\<close>)\<close>

type_synonym vector = "real list"

record document_model =
  dm_doc_id :: pystr
  dm_user_id :: pystr
  dm_filename :: pystr
  dm_file_type :: pystr
  dm_chunks_count :: nat
  dm_created_at :: pystr

text \<open>
  The payload of a stored point, with the fields of \<^verbatim>\<open>VectorPayload\<close>. The service reads
  \<^verbatim>\<open>chunk_index\<close>, \<^verbatim>\<open>filename\<close>, \<^verbatim>\<open>file_type\<close>, \<^verbatim>\<open>created_at\<close> and
  \<^verbatim>\<open>doc_metadata\<close> with \<^verbatim>\<open>.get\<close> and a default, so these may be missing (\<open>None\<close>).
\<close>

record payload =
  p_doc_id :: pystr
  p_user_id :: pystr
  p_chunk_text :: pystr
  p_chunk_index :: "int option"
  p_filename :: "pystr option"
  p_file_type :: "pystr option"
  p_created_at :: "pystr option"
  p_doc_metadata :: "document_model option"

record point =
  pt_id :: pystr
  pt_vector :: vector
  pt_payload :: payload

text \<open>
  \<^verbatim>\<open>Filter(must=[FieldCondition(key=..., match=MatchValue(value=...)), ...])\<close> on the
  two keys the repository filters on.
\<close>

datatype field_key = Key_doc_id | Key_user_id

type_synonym qfilter = "(field_key \<times> pystr) list"

fun matches_condition :: "payload \<Rightarrow> field_key \<times> pystr \<Rightarrow> bool" where
  "matches_condition p (Key_doc_id, x) = (p_doc_id p = x)"
| "matches_condition p (Key_user_id, x) = (p_user_id p = x)"

definition matches :: "qfilter \<Rightarrow> point \<Rightarrow> bool" where
  "matches flt pt = list_all (matches_condition (pt_payload pt)) flt"

section \<open>The world outside the service\<close>

text \<open>
  The Qdrant collection of the repository: its vector size and its points. The external
  calls the service makes are recorded in the order they are made, so that a theorem can
  say that a call was or was not made.
\<close>

record collection =
  c_size :: int
  c_points :: "point list"

datatype qdrant_op =
    Op_collection_exists | Op_create_collection | Op_create_payload_index
  | Op_upsert | Op_scroll | Op_delete | Op_query_points

datatype call =
    Call_file_read
  | Call_load_document
  | Call_embed_batch "pystr list"
  | Call_embed pystr
  | Call_collection_exists
  | Call_create_collection int
  | Call_create_payload_index pystr
  | Call_upsert "point list"
  | Call_scroll qfilter
  | Call_delete qfilter
  | Call_query_points qfilter int

record world =
  qdrant :: "collection option"
  collection_ready :: bool
  calls :: "call list"

datatype read_result = Text pystr | UnicodeDecodeError | ReadFails

text \<open>
  What the service does not compute itself: the settings (\<^verbatim>\<open>src/config/settings.py\<close>), the
  values of \<^verbatim>\<open>uuid4\<close>, \<^verbatim>\<open>uuid5\<close> and the clock, the temporary file, the text
  that the file libraries read from the uploaded bytes, the vectors of the embedding
  model, the similarity Qdrant ranks by, and which calls of the Qdrant client fail.
\<close>

record env =
  CHUNK_SIZE :: int
  OVERLAP :: int
  VECTOR_SIZE :: int
  uuid4 :: pystr
  uuid5 :: "pystr \<Rightarrow> nat \<Rightarrow> pystr"
  utc_now :: pystr
  temp_stem :: pystr
  temp_file_fails :: bool
  read_utf8 :: "nat list \<Rightarrow> read_result"
  read_latin1 :: "nat list \<Rightarrow> pystr option"
  pdf_pages :: "nat list \<Rightarrow> pystr list option"
  docx_paragraphs :: "nat list \<Rightarrow> pystr list option"
  encode_batch :: "pystr list \<Rightarrow> vector list option"
  encode :: "pystr \<Rightarrow> vector option"
  similarity :: "vector \<Rightarrow> vector \<Rightarrow> real"
  client_raises :: "qdrant_op \<Rightarrow> bool"

definition record_call :: "call \<Rightarrow> world \<Rightarrow> world" where
  "record_call c w = w\<lparr>calls := calls w @ [c]\<rparr>"

subsection \<open>The Qdrant client\<close>

text \<open>
  \<^verbatim>\<open>AsyncQdrantClient\<close> is a library outside the repository. The repository hands
  its arguments on to it unchanged and looks at nothing but whether the call raised, so
  the client is kept as small as the claims allow: a collection is a list of points, a
  scroll, a query or a deletion selects the points whose payload meets every condition of
  the filter, and an upsert replaces the point of the same id or adds the point. No call
  looks at the length of a vector. Every call can fail: \<open>client_raises\<close> says which do,
  whatever reason Qdrant has, and a call fails when the collection it needs is not there.
\<close>

definition client_collection_exists :: "env \<Rightarrow> world \<Rightarrow> bool outcome \<times> world" where
  "client_collection_exists e w =
     (let w' = record_call Call_collection_exists w
      in if client_raises e Op_collection_exists then (Raise OtherError, w')
         else (Return (qdrant w \<noteq> None), w'))"

definition client_create_collection :: "env \<Rightarrow> int \<Rightarrow> world \<Rightarrow> unit outcome \<times> world" where
  "client_create_collection e n w =
     (let w' = record_call (Call_create_collection n) w
      in if client_raises e Op_create_collection \<or> qdrant w \<noteq> None then (Raise OtherError, w')
         else (Return (), w'\<lparr>qdrant := Some \<lparr>c_size = n, c_points = []\<rparr>\<rparr>))"

definition client_create_payload_index :: "env \<Rightarrow> pystr \<Rightarrow> world \<Rightarrow> unit outcome \<times> world" where
  "client_create_payload_index e name w =
     (let w' = record_call (Call_create_payload_index name) w
      in if client_raises e Op_create_payload_index \<or> qdrant w = None then (Raise OtherError, w')
         else (Return (), w'))"

definition upsert_point :: "point list \<Rightarrow> point \<Rightarrow> point list" where
  "upsert_point ps p =
     (if list_ex (\<lambda>q. pt_id q = pt_id p) ps
      then map (\<lambda>q. if pt_id q = pt_id p then p else q) ps
      else ps @ [p])"

definition client_upsert :: "env \<Rightarrow> point list \<Rightarrow> world \<Rightarrow> unit outcome \<times> world" where
  "client_upsert e pts w =
     (let w' = record_call (Call_upsert pts) w
      in case qdrant w of
           None \<Rightarrow> (Raise OtherError, w')
         | Some c \<Rightarrow>
             if client_raises e Op_upsert then (Raise OtherError, w')
             else (Return (), w'\<lparr>qdrant := Some (c\<lparr>c_points := foldl upsert_point (c_points c) pts\<rparr>)\<rparr>))"

definition client_scroll :: "env \<Rightarrow> qfilter \<Rightarrow> nat \<Rightarrow> world \<Rightarrow> point list outcome \<times> world" where
  "client_scroll e flt limit w =
     (let w' = record_call (Call_scroll flt) w
      in case qdrant w of
           None \<Rightarrow> (Raise OtherError, w')
         | Some c \<Rightarrow>
             if client_raises e Op_scroll then (Raise OtherError, w')
             else (Return (take limit (filter (matches flt) (c_points c))), w'))"

definition client_delete :: "env \<Rightarrow> qfilter \<Rightarrow> world \<Rightarrow> unit outcome \<times> world" where
  "client_delete e flt w =
     (let w' = record_call (Call_delete flt) w
      in case qdrant w of
           None \<Rightarrow> (Raise OtherError, w')
         | Some c \<Rightarrow>
             if client_raises e Op_delete then (Raise OtherError, w')
             else (Return (),
                   w'\<lparr>qdrant := Some (c\<lparr>c_points := filter (\<lambda>p. \<not> matches flt p) (c_points c)\<rparr>)\<rparr>))"

text \<open>A scored point of a query: the score and the payload (no vector is asked for).\<close>

definition client_query_points ::
  "env \<Rightarrow> vector \<Rightarrow> qfilter \<Rightarrow> int \<Rightarrow> world \<Rightarrow> (real \<times> payload) list outcome \<times> world" where
  "client_query_points e q flt limit w =
     (let w' = record_call (Call_query_points flt limit) w
      in case qdrant w of
           None \<Rightarrow> (Raise OtherError, w')
         | Some c \<Rightarrow>
             if client_raises e Op_query_points then (Raise OtherError, w')
             else (Return (take (nat limit)
                     (rev (sort_key fst
                        (map (\<lambda>p. (similarity e q (pt_vector p), pt_payload p))
                           (filter (matches flt) (c_points c)))))), w'))"

subsection \<open>Sequencing and handlers\<close>

text \<open>
  \<open>and_then\<close> runs the rest of a body after a call that returned; an exception or a
  run that never returns ends the body. Every handler of the pipeline raises (the same
  exception or another one), so a \<^verbatim>\<open>try\<close> with its \<^verbatim>\<open>except\<close> clauses is the map
  from the exception raised in the body to the exception that leaves the statement.
\<close>

definition and_then ::
  "'a outcome \<times> world \<Rightarrow> ('a \<Rightarrow> world \<Rightarrow> 'b outcome \<times> world) \<Rightarrow> 'b outcome \<times> world" where
  "and_then r k =
     (case r of
        (Return x, w) \<Rightarrow> k x w
      | (Raise x, w) \<Rightarrow> (Raise x, w)
      | (Diverge, w) \<Rightarrow> (Diverge, w))"

definition try_except :: "'a outcome \<times> world \<Rightarrow> (exn \<Rightarrow> exn) \<Rightarrow> 'a outcome \<times> world" where
  "try_except r h =
     (case r of
        (Raise x, w) \<Rightarrow> (Raise (h x), w)
      | (Return x, w) \<Rightarrow> (Return x, w)
      | (Diverge, w) \<Rightarrow> (Diverge, w))"

section \<open>The vector repository (\<^verbatim>\<open>src/repository/document_vector_repository.py\<close>)\<close>

definition index_fields :: "pystr list" where
  "index_fields =
     [str ''user_id'', str ''doc_id'', str ''filename'', str ''file_type'', str ''created_at'',
      str ''chunk_index'']"

fun create_payload_indices :: "env \<Rightarrow> pystr list \<Rightarrow> world \<Rightarrow> unit outcome \<times> world" where
  "create_payload_indices e [] w = (Return (), w)"
| "create_payload_indices e (name # names) w =
     and_then (client_create_payload_index e name w) (\<lambda>_ w'. create_payload_indices e names w')"

definition ensure_collection_exists :: "env \<Rightarrow> world \<Rightarrow> unit outcome \<times> world" where
  "ensure_collection_exists e w =
     (if collection_ready w then (Return (), w)
      else try_except
        (and_then (client_collection_exists e w) (\<lambda>exists w1.
           and_then
             (if \<not> exists
              then and_then (client_create_collection e (VECTOR_SIZE e) w1)
                     (\<lambda>_ w2. create_payload_indices e index_fields w2)
              else (Return (), w1))
             (\<lambda>_ w3. (Return (), w3\<lparr>collection_ready := True\<rparr>))))
        (\<lambda>_. VectorCollectionError))"

definition save_points :: "env \<Rightarrow> point list \<Rightarrow> world \<Rightarrow> unit outcome \<times> world" where
  "save_points e points w =
     and_then (ensure_collection_exists e w) (\<lambda>_ w1.
       try_except (client_upsert e points w1) (\<lambda>_. PointError))"

definition search ::
  "env \<Rightarrow> vector \<Rightarrow> int \<Rightarrow> qfilter \<Rightarrow> world \<Rightarrow> (real \<times> payload) list outcome \<times> world" where
  "search e query_vector top_k query_filter w =
     and_then (ensure_collection_exists e w) (\<lambda>_ w1.
       try_except (client_query_points e query_vector query_filter top_k w1) (\<lambda>_. PointError))"

text \<open>
  The filter of \<^verbatim>\<open>get_points_by_doc_id\<close> and \<^verbatim>\<open>delete_points_by_doc_id\<close>: the
  condition on the user is added \<^verbatim>\<open>if user_id:\<close>, that is for a user id that is neither
  \<^verbatim>\<open>None\<close> nor the empty string.
\<close>

definition doc_filter :: "pystr \<Rightarrow> pystr option \<Rightarrow> qfilter" where
  "doc_filter doc_id user_id =
     (Key_doc_id, doc_id) #
     (case user_id of
        None \<Rightarrow> []
      | Some u \<Rightarrow> if u \<noteq> [] then [(Key_user_id, u)] else [])"

definition get_points_by_doc_id ::
  "env \<Rightarrow> pystr \<Rightarrow> pystr option \<Rightarrow> world \<Rightarrow> payload list outcome \<times> world" where
  "get_points_by_doc_id e doc_id user_id w =
     and_then (ensure_collection_exists e w) (\<lambda>_ w1.
       try_except
         (and_then (client_scroll e (doc_filter doc_id user_id) 1000 w1)
            (\<lambda>points w2. (Return (map pt_payload points), w2)))
         (\<lambda>_. PointError))"

definition delete_points :: "env \<Rightarrow> qfilter \<Rightarrow> world \<Rightarrow> unit outcome \<times> world" where
  "delete_points e query_filter w =
     and_then (ensure_collection_exists e w) (\<lambda>_ w1.
       try_except (client_delete e query_filter w1) (\<lambda>_. PointError))"

definition delete_points_by_doc_id ::
  "env \<Rightarrow> pystr \<Rightarrow> pystr option \<Rightarrow> world \<Rightarrow> unit outcome \<times> world" where
  "delete_points_by_doc_id e doc_id user_id w =
     and_then (ensure_collection_exists e w) (\<lambda>_ w1.
       try_except (delete_points e (doc_filter doc_id user_id) w1) (\<lambda>_. PointError))"

section \<open>Extracting the text (\<^verbatim>\<open>src/utils/extractor.py\<close>)\<close>

text \<open>
  \<^verbatim>\<open>os.path.splitext\<close> (of \<^verbatim>\<open>posixpath\<close>): the extension starts at the last dot,
  when that dot comes after the last slash and after a character of the file name that is
  not a dot. \<open>rfind\<close> is \<^verbatim>\<open>str.rfind\<close> for one character, \<open>-1\<close> when it is absent.
\<close>

definition rfind :: "uchar \<Rightarrow> pystr \<Rightarrow> int" where
  "rfind c p =
     (if c \<in> set p then int (length p) - 1 - int (length (takeWhile (\<lambda>x. x \<noteq> c) (rev p)))
      else - 1)"

definition splitext :: "pystr \<Rightarrow> pystr \<times> pystr" where
  "splitext p =
     (let sepIndex = rfind 47 p; dotIndex = rfind 46 p
      in if dotIndex > sepIndex
            \<and> list_ex (\<lambda>c. c \<noteq> 46) (py_slice p (sepIndex + 1) dotIndex)
         then (take (nat dotIndex) p, drop (nat dotIndex) p)
         else (p, []))"

text \<open>
  \<^verbatim>\<open>str.lower\<close> on the ASCII letters; other code points are left as they are (no code
  point outside ASCII becomes a letter of \<^verbatim>\<open>.txt\<close>, \<^verbatim>\<open>.pdf\<close> or \<^verbatim>\<open>.docx\<close>).
\<close>

definition py_lower :: "pystr \<Rightarrow> pystr" where
  "py_lower t = map (\<lambda>c. if 65 \<le> c \<and> c \<le> 90 then c + 32 else c) t"

definition extract_from_pdf :: "env \<Rightarrow> nat list \<Rightarrow> pystr outcome" where
  "extract_from_pdf e bytes =
     (case pdf_pages e bytes of
        None \<Rightarrow> Raise FileProcessingError
      | Some pages \<Rightarrow> Return (concat (map (\<lambda>page. page @ [10]) pages)))"

definition extract_from_docx :: "env \<Rightarrow> nat list \<Rightarrow> pystr outcome" where
  "extract_from_docx e bytes =
     (case docx_paragraphs e bytes of
        None \<Rightarrow> Raise FileProcessingError
      | Some paragraphs \<Rightarrow> Return (py_join [10] paragraphs))"

definition extract_from_txt :: "env \<Rightarrow> nat list \<Rightarrow> pystr outcome" where
  "extract_from_txt e bytes =
     (case read_utf8 e bytes of
        Text t \<Rightarrow> Return t
      | UnicodeDecodeError \<Rightarrow>
          (case read_latin1 e bytes of
             Some t \<Rightarrow> Return t
           | None \<Rightarrow> Raise FileProcessingError)
      | ReadFails \<Rightarrow> Raise FileProcessingError)"

definition load_document :: "env \<Rightarrow> pystr \<Rightarrow> nat list \<Rightarrow> pystr outcome" where
  "load_document e file_path bytes =
     (let ext = py_lower (snd (splitext file_path))
      in if ext = str ''.txt'' then extract_from_txt e bytes
         else if ext = str ''.pdf'' then extract_from_pdf e bytes
         else if ext = str ''.docx'' then extract_from_docx e bytes
         else Raise FileTypeError)"

section \<open>The document service (\<^verbatim>\<open>src/service/document_service.py\<close>)\<close>

record upload_file =
  filename :: "pystr option"
  content :: "nat list"

record upload_response =
  ur_doc_id :: pystr
  ur_filename :: pystr
  ur_file_type :: pystr
  ur_chunks_count :: nat

record document_chunks =
  dc_metadata :: document_model
  dc_chunks :: "payload list"

record search_hit =
  sh_doc_id :: pystr
  sh_filename :: pystr
  sh_chunk_text :: pystr
  sh_score :: real
  sh_chunk_index :: int

text \<open>
  \<^verbatim>\<open>_process_document\<close>. The temporary file is named by the environment's stem and the
  extension of the uploaded file name. The inner handlers turn a \<open>ValueError\<close> of
  \<^verbatim>\<open>load_document\<close> into \<open>FileTypeError\<close> and any other exception into
  \<open>FileProcessingError\<close>; the outer ones let the five pipeline exceptions pass and turn any
  other into \<open>FileProcessingError\<close>. Each chunk text is paired with its embedding
  (\<^verbatim>\<open>zip\<close>).
\<close>

definition process_document ::
  "env \<Rightarrow> pystr \<Rightarrow> nat list \<Rightarrow> world \<Rightarrow> (pystr \<times> vector) list outcome \<times> world" where
  "process_document e fname bytes w =
     try_except
       (if temp_file_fails e then (Raise OtherError, w)
        else
          let w1 = record_call Call_file_read w;
              temp_file_path = temp_stem e @ snd (splitext fname);
              w2 = record_call Call_load_document w1
          in and_then
               (try_except (load_document e temp_file_path bytes, w2)
                  (\<lambda>x. if x = ValueError then FileTypeError else FileProcessingError))
               (\<lambda>text w3.
                  if py_strip text = [] then (Raise EmptyDocumentError, w3)
                  else
                    case chunker text (CHUNK_SIZE e) (OVERLAP e) of
                      None \<Rightarrow> (Diverge, w3)
                    | Some chunks \<Rightarrow>
                        if chunks = [] then (Raise ChunkingError, w3)
                        else
                          let chunk_texts = filter (\<lambda>chunk. py_strip chunk \<noteq> []) chunks
                          in if chunk_texts = [] then (Raise EmptyDocumentError, w3)
                             else
                               let w4 = record_call (Call_embed_batch chunk_texts) w3
                               in case encode_batch e chunk_texts of
                                    None \<Rightarrow> (Raise EmbeddingError, w4)
                                  | Some embeddings \<Rightarrow>
                                      (Return (zip chunk_texts embeddings), w4)))
       (\<lambda>x. if x \<in> {FileTypeError, EmptyDocumentError, ChunkingError, EmbeddingError,
                      FileProcessingError}
            then x else FileProcessingError)"

definition make_point ::
  "env \<Rightarrow> pystr \<Rightarrow> pystr \<Rightarrow> pystr \<Rightarrow> pystr \<Rightarrow> document_model \<Rightarrow> nat \<times> pystr \<times> vector \<Rightarrow> point" where
  "make_point e doc_id user_id fname ext doc_metadata ic =
     (case ic of (i, chunk_text, embedding) \<Rightarrow>
        \<lparr>pt_id = uuid5 e doc_id i,
         pt_vector = embedding,
         pt_payload =
           \<lparr>p_doc_id = doc_id, p_user_id = user_id, p_chunk_text = chunk_text,
            p_chunk_index = Some (int i), p_filename = Some fname, p_file_type = Some ext,
            p_created_at = Some (dm_created_at doc_metadata),
            p_doc_metadata = Some doc_metadata\<rparr>\<rparr>)"

definition upload_document ::
  "env \<Rightarrow> upload_file \<Rightarrow> pystr \<Rightarrow> world \<Rightarrow> upload_response outcome \<times> world" where
  "upload_document e file user_id w =
     (let doc_id = uuid4 e
      in case filename file of
           None \<Rightarrow> (Raise FileTypeError, w)
         | Some fname \<Rightarrow>
             if fname = [] then (Raise FileTypeError, w)
             else
               let ext = py_lower (snd (splitext fname))
               in if ext \<notin> set [str ''.txt'', str ''.pdf'', str ''.docx'']
                  then (Raise FileTypeError, w)
                  else
                    try_except
                      (and_then (process_document e fname (content file) w)
                         (\<lambda>chunks_data w1.
                            let doc_metadata =
                                  \<lparr>dm_doc_id = doc_id, dm_user_id = user_id, dm_filename = fname,
                                   dm_file_type = ext, dm_chunks_count = length chunks_data,
                                   dm_created_at = utc_now e\<rparr>;
                                points =
                                  map (make_point e doc_id user_id fname ext doc_metadata)
                                    (enumerate 0 chunks_data)
                            in and_then (save_points e points w1)
                                 (\<lambda>_ w2.
                                    (Return \<lparr>ur_doc_id = doc_id, ur_filename = fname,
                                             ur_file_type = ext,
                                             ur_chunks_count = length chunks_data\<rparr>, w2))))
                      (\<lambda>x. if x = VectorCollectionError \<or> x = PointError then x
                           else DocumentRepositoryError))"

text \<open>
  \<^verbatim>\<open>get_user_document\<close>. The metadata is that of the first chunk, or is put together
  from the first chunk when it has none; \<^verbatim>\<open>sorted(chunks, key=...)\<close> is a stable sort
  on \<^verbatim>\<open>chunk_index\<close>, with 0 for a chunk that has no index.
\<close>

definition get_user_document ::
  "env \<Rightarrow> pystr \<Rightarrow> pystr \<Rightarrow> world \<Rightarrow> document_chunks outcome \<times> world" where
  "get_user_document e doc_id user_id w =
     try_except
       (and_then (get_points_by_doc_id e doc_id (Some user_id) w)
          (\<lambda>chunks w1.
             case chunks of
               [] \<Rightarrow> (Raise DocumentNotFoundError, w1)
             | first # _ \<Rightarrow>
                 let doc_metadata =
                       (case p_doc_metadata first of
                          Some m \<Rightarrow> m
                        | None \<Rightarrow>
                            \<lparr>dm_doc_id = doc_id, dm_user_id = user_id,
                             dm_filename =
                               (case p_filename first of Some f \<Rightarrow> f | None \<Rightarrow> str ''Unknown''),
                             dm_file_type = (case p_file_type first of Some t \<Rightarrow> t | None \<Rightarrow> []),
                             dm_chunks_count = length chunks,
                             dm_created_at =
                               (case p_created_at first of Some c \<Rightarrow> c | None \<Rightarrow> [])\<rparr>)
                 in (Return
                       \<lparr>dc_metadata = doc_metadata,
                        dc_chunks =
                          sort_key (\<lambda>x. case p_chunk_index x of Some i \<Rightarrow> i | None \<Rightarrow> 0) chunks\<rparr>,
                     w1)))
       (\<lambda>x. if x = DocumentNotFoundError \<or> x = VectorCollectionError \<or> x = PointError then x
            else DocumentRepositoryError)"

definition delete_user_document ::
  "env \<Rightarrow> pystr \<Rightarrow> pystr \<Rightarrow> world \<Rightarrow> unit outcome \<times> world" where
  "delete_user_document e doc_id user_id w =
     try_except
       (and_then (get_points_by_doc_id e doc_id (Some user_id) w)
          (\<lambda>chunks w1.
             if chunks = [] then (Raise DocumentNotFoundError, w1)
             else delete_points_by_doc_id e doc_id (Some user_id) w1))
       (\<lambda>x. if x = DocumentNotFoundError \<or> x = VectorCollectionError \<or> x = PointError then x
            else DocumentRepositoryError)"

text \<open>
  \<^verbatim>\<open>search_user_documents\<close>. A result whose payload has no \<^verbatim>\<open>chunk_index\<close> makes
  \<^verbatim>\<open>result.payload["chunk_index"]\<close> raise a \<^verbatim>\<open>KeyError\<close>.
\<close>

definition search_user_documents ::
  "env \<Rightarrow> pystr \<Rightarrow> int \<Rightarrow> pystr \<Rightarrow> world \<Rightarrow> search_hit list outcome \<times> world" where
  "search_user_documents e query top_k user_id w =
     (if py_strip query = [] then (Raise EmptyDocumentError, w)
      else
        try_except
          (let w1 = record_call (Call_embed query) w
           in case encode e query of
                None \<Rightarrow> (Raise OtherError, w1)
              | Some query_embedding \<Rightarrow>
                  let user_filter = [(Key_user_id, user_id)]
                  in and_then (search e query_embedding top_k user_filter w1)
                       (\<lambda>results w2.
                          if list_ex (\<lambda>r. p_chunk_index (snd r) = None) results
                          then (Raise OtherError, w2)
                          else
                            (Return
                               (map (\<lambda>r.
                                  \<lparr>sh_doc_id = p_doc_id (snd r),
                                   sh_filename =
                                     (case p_filename (snd r) of
                                        Some f \<Rightarrow> f | None \<Rightarrow> str ''Unknown''),
                                   sh_chunk_text = p_chunk_text (snd r),
                                   sh_score = fst r,
                                   sh_chunk_index = the (p_chunk_index (snd r))\<rparr>) results),
                             w2)))
          (\<lambda>x. if x = VectorCollectionError \<or> x = PointError then x
               else DocumentRepositoryError))"

section \<open>The HTTP layer (\<^verbatim>\<open>src/controller/document_controller.py\<close>)\<close>

text \<open>
  The status code of each endpoint for the exception that leaves the service, in the
  order of the \<^verbatim>\<open>except\<close> clauses; 200 when the service returns. The user is the one
  the bearer token names.
\<close>

fun upload_status :: "exn \<Rightarrow> nat" where
  "upload_status FileTypeError = 400"
| "upload_status EmptyDocumentError = 400"
| "upload_status ChunkingError = 400"
| "upload_status EmbeddingError = 500"
| "upload_status FileProcessingError = 500"
| "upload_status VectorCollectionError = 500"
| "upload_status PointError = 500"
| "upload_status DocumentRepositoryError = 500"
| "upload_status _ = 500"

fun delete_status :: "exn \<Rightarrow> nat" where
  "delete_status DocumentNotFoundError = 404"
| "delete_status VectorCollectionError = 500"
| "delete_status PointError = 500"
| "delete_status DocumentRepositoryError = 500"
| "delete_status _ = 500"

fun search_status :: "exn \<Rightarrow> nat" where
  "search_status EmptyDocumentError = 400"
| "search_status VectorCollectionError = 500"
| "search_status PointError = 500"
| "search_status DocumentRepositoryError = 500"
| "search_status _ = 500"

definition respond :: "(exn \<Rightarrow> nat) \<Rightarrow> 'a outcome \<times> world \<Rightarrow> nat option \<times> world" where
  "respond status r =
     (case r of
        (Return x, w) \<Rightarrow> (Some 200, w)
      | (Raise x, w) \<Rightarrow> (Some (status x), w)
      | (Diverge, w) \<Rightarrow> (None, w))"

definition upload_document_endpoint ::
  "env \<Rightarrow> upload_file \<Rightarrow> pystr \<Rightarrow> world \<Rightarrow> nat option \<times> world" where
  "upload_document_endpoint e file user_id w =
     respond upload_status (upload_document e file user_id w)"

definition delete_document_endpoint ::
  "env \<Rightarrow> pystr \<Rightarrow> pystr \<Rightarrow> world \<Rightarrow> nat option \<times> world" where
  "delete_document_endpoint e doc_id user_id w =
     respond delete_status (delete_user_document e doc_id user_id w)"

definition search_documents_endpoint ::
  "env \<Rightarrow> pystr \<Rightarrow> int \<Rightarrow> pystr \<Rightarrow> world \<Rightarrow> nat option \<times> world" where
  "search_documents_endpoint e query top_k user_id w =
     respond search_status (search_user_documents e query top_k user_id w)"

section \<open>Who the user is (\<^verbatim>\<open>src/service/authentication_service.py\<close>)\<close>

text \<open>
  Every document endpoint gets its user from \<^verbatim>\<open>get_current_user_bearer\<close> and hands
  \<^verbatim>\<open>current_user["user_id"]\<close> to the service. The result of \<^verbatim>\<open>jwt.decode\<close> (the
  \<^verbatim>\<open>sub\<close> and \<^verbatim>\<open>email\<close> of the token, or one of the two exceptions that
  \<^verbatim>\<open>decode_access_token\<close> handles) and of the user lookup (\<open>None\<close> when it raises) come
  from outside. The function returns the user id and the email, or the status of the
  \<^verbatim>\<open>HTTPException\<close> it raises.
\<close>

datatype auth_error = TokenExpiredError | TokenError | UserNotFoundError | AuthOtherError

datatype jwt_result =
  Decoded "pystr option" "pystr option" | ExpiredSignatureError | InvalidTokenError

record auth_env =
  jwt_decode :: "pystr \<Rightarrow> jwt_result"
  get_user_by_id :: "pystr \<Rightarrow> bool option"

definition decode_access_token ::
  "auth_env \<Rightarrow> pystr \<Rightarrow> auth_error + pystr option \<times> pystr option" where
  "decode_access_token a token =
     (case jwt_decode a token of
        Decoded sub email \<Rightarrow> Inr (sub, email)
      | ExpiredSignatureError \<Rightarrow> Inl TokenExpiredError
      | InvalidTokenError \<Rightarrow> Inl TokenError)"

fun auth_status :: "auth_error \<Rightarrow> nat" where
  "auth_status TokenExpiredError = 401"
| "auth_status TokenError = 401"
| "auth_status UserNotFoundError = 401"
| "auth_status AuthOtherError = 500"

definition get_current_user_bearer ::
  "auth_env \<Rightarrow> pystr \<Rightarrow> nat + pystr \<times> pystr option" where
  "get_current_user_bearer a credentials =
     (case
        (case decode_access_token a credentials of
           Inl x \<Rightarrow> Inl x
         | Inr (sub, email) \<Rightarrow>
             (case sub of
                None \<Rightarrow> Inl TokenError
              | Some user_id \<Rightarrow>
                  if user_id = [] then Inl TokenError
                  else
                    (case get_user_by_id a user_id of
                       None \<Rightarrow> Inl AuthOtherError
                     | Some found \<Rightarrow>
                         if \<not> found then Inl UserNotFoundError
                         else Inr (user_id, email))))
      of
        Inl x \<Rightarrow> Inl (auth_status x)
      | Inr user \<Rightarrow> Inr user)"

section \<open>A concrete environment\<close>

text \<open>
  An environment and two worlds to run the service on: the text libraries return the
  bytes as code points, the embedding model returns two-dimensional vectors, the
  similarity is the dot product and no client call fails. \<open>fresh_world\<close> has no
  collection yet.
\<close>

definition example_env :: env where
  "example_env =
     \<lparr>CHUNK_SIZE = 3, OVERLAP = 1, VECTOR_SIZE = 2,
      uuid4 = str ''doc-1'',
      uuid5 = (\<lambda>doc_id i. doc_id @ str ''/'' @ replicate i 49),
      utc_now = str ''2025-01-01T00:00:00+00:00'',
      temp_stem = str ''/tmp/tmpab12cd'',
      temp_file_fails = False,
      read_utf8 = (\<lambda>bytes. Text bytes),
      read_latin1 = (\<lambda>bytes. Some bytes),
      pdf_pages = (\<lambda>bytes. Some [bytes]),
      docx_paragraphs = (\<lambda>bytes. Some [bytes]),
      encode_batch = (\<lambda>texts. Some (map (\<lambda>t. [1, 0]) texts)),
      encode = (\<lambda>t. Some [1, 0]),
      similarity = (\<lambda>q v. sum_list (map2 (*) q v)),
      client_raises = (\<lambda>_. False)\<rparr>"

definition fresh_world :: world where
  "fresh_world = \<lparr>qdrant = None, collection_ready = False, calls = []\<rparr>"

definition example_point :: "pystr \<Rightarrow> pystr \<Rightarrow> int \<Rightarrow> point" where
  "example_point doc_id user_id i =
     \<lparr>pt_id = doc_id @ str ''/'' @ replicate (nat i) 49,
      pt_vector = [1, 0],
      pt_payload =
        \<lparr>p_doc_id = doc_id, p_user_id = user_id, p_chunk_text = str ''text'',
         p_chunk_index = Some i, p_filename = Some (str ''a.txt''),
         p_file_type = Some (str ''.txt''), p_created_at = None, p_doc_metadata = None\<rparr>\<rparr>"

definition stored_world :: "point list \<Rightarrow> world" where
  "stored_world points =
     \<lparr>qdrant = Some \<lparr>c_size = 2, c_points = points\<rparr>, collection_ready = False, calls = []\<rparr>"

text \<open>
  An environment in which one call of the Qdrant client fails, one whose
  \<^verbatim>\<open>VECTOR_SIZE\<close> is 3 while the embedding model still returns two-dimensional vectors,
  and an uploaded text file of four words.
\<close>

definition failing_env :: "qdrant_op \<Rightarrow> env" where
  "failing_env op = example_env\<lparr>client_raises := (\<lambda>x. x = op)\<rparr>"


definition example_file :: upload_file where
  "example_file = \<lparr>filename = Some (str ''a.txt''), content = str ''one two three four''\<rparr>"

text \<open>
  An authentication in which a token names the user it consists of and every user is
  known.
\<close>

definition example_auth :: auth_env where
  "example_auth =
     \<lparr>jwt_decode = (\<lambda>token. Decoded (Some token) None),
      get_user_by_id = (\<lambda>user_id. Some True)\<rparr>"

section \<open>What a call leaves behind\<close>

text \<open>
  The points of the collection (none when there is no collection), the calls that a run
  from \<open>w\<close> to \<open>w'\<close> has added to the record, and three kinds of calls: those that
  set the collection up, those of the upload pipeline, and deletions.
\<close>

definition stored_points :: "world \<Rightarrow> point list" where
  "stored_points w = (case qdrant w of None \<Rightarrow> [] | Some c \<Rightarrow> c_points c)"

definition new_calls :: "world \<Rightarrow> world \<Rightarrow> call list" where
  "new_calls w w' = drop (length (calls w)) (calls w')"

fun setup_call :: "call \<Rightarrow> bool" where
  "setup_call Call_collection_exists = True"
| "setup_call (Call_create_collection n) = True"
| "setup_call (Call_create_payload_index name) = True"
| "setup_call _ = False"

fun pipeline_call :: "call \<Rightarrow> bool" where
  "pipeline_call Call_file_read = True"
| "pipeline_call Call_load_document = True"
| "pipeline_call (Call_embed_batch texts) = True"
| "pipeline_call _ = False"

fun is_delete_call :: "call \<Rightarrow> bool" where
  "is_delete_call (Call_delete flt) = True"
| "is_delete_call _ = False"

text \<open>
  The points that \<^verbatim>\<open>upload_document\<close> builds from the chunks and their embeddings
  (the list it hands to \<^verbatim>\<open>save_points\<close>).
\<close>

definition points_of_upload ::
  "env \<Rightarrow> pystr \<Rightarrow> pystr \<Rightarrow> (pystr \<times> vector) list \<Rightarrow> point list" where
  "points_of_upload e user_id fname chunks_data =
     map (make_point e (uuid4 e) user_id fname (py_lower (snd (splitext fname)))
            \<lparr>dm_doc_id = uuid4 e, dm_user_id = user_id, dm_filename = fname,
             dm_file_type = py_lower (snd (splitext fname)),
             dm_chunks_count = length chunks_data, dm_created_at = utc_now e\<rparr>)
       (enumerate 0 chunks_data)"

section \<open>Running the model\<close>

text \<open>
  The definitions to unfold when the repository is run on a concrete world, and what a
  \<^verbatim>\<open>try\<close> statement and a sequence can return or raise.
\<close>

lemmas repository_defs =
  and_then_def try_except_def record_call_def ensure_collection_exists_def
  client_collection_exists_def client_create_collection_def client_create_payload_index_def
  client_upsert_def client_scroll_def client_delete_def client_query_points_def
  save_points_def search_def get_points_by_doc_id_def delete_points_def
  delete_points_by_doc_id_def doc_filter_def matches_def index_fields_def upsert_point_def

lemmas example_defs =
  example_env_def fresh_world_def stored_world_def example_point_def str_def

lemma try_except_Return:
  "try_except r h = (Return x, w) \<longleftrightarrow> r = (Return x, w)"
  by (cases r; cases "fst r") (auto simp: try_except_def)

lemma and_then_Return:
  "and_then r k = (Return y, w') \<longleftrightarrow> (\<exists>x w. r = (Return x, w) \<and> k x w = (Return y, w'))"
  by (cases r; cases "fst r") (auto simp: and_then_def)

lemma try_except_Raise:
  "try_except r h = (Raise x, w') \<Longrightarrow> \<exists>y. x = h y"
  by (cases r; cases "fst r") (auto simp: try_except_def)

section \<open>Cleaning a text twice changes nothing\<close>

lemma no_run2_Cons:
  "no_run2 a (x # ys) = (ys = [] \<or> (\<not> (x = a \<and> hd ys = a) \<and> no_run2 a ys))"
  by (cases ys) auto

lemma no_run2_append: "no_run2 a (xs @ ys) \<Longrightarrow> no_run2 a xs \<and> no_run2 a ys"
proof (induction xs)
  case Nil
  then show ?case by simp
next
  case (Cons x xs)
  then show ?case
    by (cases xs; cases ys) (auto simp: no_run2_Cons)
qed

lemma no_run2_drop: "no_run2 a t \<Longrightarrow> no_run2 a (drop n t)"
  using no_run2_append [of a "take n t" "drop n t"] by simp

lemma no_run2_take: "no_run2 a t \<Longrightarrow> no_run2 a (take n t)"
  using no_run2_append [of a "take n t" "drop n t"] by simp

lemma py_strip_take_drop:
  "\<exists>m n. py_strip t = take m (drop n t)"
proof -
  let ?u = "dropWhile py_isspace t"
  have "py_strip t = rev (drop (length (takeWhile py_isspace (rev ?u))) (rev ?u))"
    unfolding py_strip_def by (simp add: dropWhile_eq_drop [symmetric])
  also have "\<dots> = take (length ?u - length (takeWhile py_isspace (rev ?u))) ?u"
    by (simp add: rev_drop)
  also have "?u = drop (length (takeWhile py_isspace t)) t"
    by (rule dropWhile_eq_drop)
  finally show ?thesis by blast
qed

lemma no_run2_strip: "no_run2 a t \<Longrightarrow> no_run2 a (py_strip t)"
  using py_strip_take_drop [of t] by (auto intro!: no_run2_take no_run2_drop)

lemma set_strip: "set (py_strip t) \<subseteq> set t"
proof -
  obtain m n where "py_strip t = take m (drop n t)"
    using py_strip_take_drop by blast
  then show ?thesis
    by (metis set_take_subset set_drop_subset subset_trans)
qed

lemma strip_no_outer_space: "no_outer_space (py_strip t)"
proof (cases "py_strip t = []")
  case True
  then show ?thesis by (simp add: no_outer_space_def)
next
  case False
  let ?u = "dropWhile py_isspace t"
  let ?w = "dropWhile py_isspace (rev ?u)"
  have w: "?w \<noteq> []" and s: "py_strip t = rev ?w"
    using False by (simp_all add: py_strip_def)
  have l: "\<not> py_isspace (hd ?w)"
    using w by (rule hd_dropWhile)
  have u: "?u \<noteq> []"
    using w by (cases "?u") simp_all
  have hu: "\<not> py_isspace (hd ?u)"
    using u by (rule hd_dropWhile)
  have "last (rev ?u) = hd ?u"
    using u by (simp add: last_rev)
  have "last ?w = last (rev ?u)"
    using w by (metis last_appendR takeWhile_dropWhile_id)
  then have "\<not> py_isspace (last ?w)"
    using hu u by (simp add: last_rev)
  then show ?thesis
    using w l s by (simp add: no_outer_space_def hd_rev last_rev)
qed

lemma strip_id: "no_outer_space t \<Longrightarrow> py_strip t = t"
proof (cases t)
  case Nil
  then show ?thesis by (simp add: py_strip_def)
next
  case (Cons c cs)
  assume "no_outer_space t"
  then have h: "\<not> py_isspace (hd t)" and l: "\<not> py_isspace (last t)"
    using Cons by (auto simp: no_outer_space_def)
  have 1: "dropWhile py_isspace t = t"
    using h Cons by simp
  have "hd (rev t) = last t"
    using Cons by (simp add: hd_rev)
  then have 2: "dropWhile py_isspace (rev t) = rev t"
    using l Cons by (cases "rev t") auto
  show ?thesis by (simp add: py_strip_def 1 2)
qed

lemma re_sub_runs_id: "\<forall>c \<in> set t. \<not> P c \<Longrightarrow> re_sub_runs k P r t = t"
  by (induction t) auto

lemma re_sub_runs_plus_set:
  "x \<in> set (re_sub_runs (Suc 0) P r t) \<Longrightarrow> x \<in> set r \<or> \<not> P x"
  by (induction "Suc 0" P r t rule: re_sub_runs.induct) (auto split: if_splits)

lemma re_sub_runs_set: "set (re_sub_runs k P r t) \<subseteq> set r \<union> set t"
proof (induction k P r t rule: re_sub_runs.induct)
  case (1 k P repl)
  show ?case by simp
next
  case (2 k P repl c cs)
  have d: "set (dropWhile P cs) \<subseteq> set cs"
    by (auto dest: set_dropWhileD)
  show ?case
  proof (cases "P c \<and> k \<le> length (takeWhile P (c # cs))")
    case True
    then have "set (re_sub_runs k P repl (dropWhile P cs)) \<subseteq> set repl \<union> set (dropWhile P cs)"
      by (rule "2.IH"(1))
    then have "set (re_sub_runs k P repl (dropWhile P cs)) \<subseteq> set repl \<union> set cs"
      using d by blast
    moreover have "re_sub_runs k P repl (c # cs) = repl @ re_sub_runs k P repl (dropWhile P cs)"
      by (simp only: re_sub_runs.simps(2) True simp_thms if_True)
    ultimately show ?thesis by auto
  next
    case False
    then have "set (re_sub_runs k P repl cs) \<subseteq> set repl \<union> set cs"
      by (rule "2.IH"(2))
    moreover have "re_sub_runs k P repl (c # cs) = c # re_sub_runs k P repl cs"
      by (simp only: re_sub_runs.simps(2) False simp_thms if_False)
    ultimately show ?thesis by auto
  qed
qed

lemma collapse_Cons:
  "re_sub_runs 2 (\<lambda>x. x = b) [b] (c # cs) =
     c # re_sub_runs 2 (\<lambda>x. x = b) [b] (if c = b then dropWhile (\<lambda>x. x = b) cs else cs)"
  by (cases cs) auto

lemma collapse_Nil_iff: "re_sub_runs 2 (\<lambda>x. x = b) [b] t = [] \<longleftrightarrow> t = []"
  by (cases t) (simp_all add: collapse_Cons del: re_sub_runs.simps(2))

lemma collapse_hd: "hd (re_sub_runs 2 (\<lambda>x. x = b) [b] t) = hd t"
  by (cases t) (simp_all add: collapse_Cons del: re_sub_runs.simps(2))

lemma collapse_no_run2: "no_run2 b (re_sub_runs 2 (\<lambda>x. x = b) [b] t)"
proof (induction "length t" arbitrary: t rule: less_induct)
  case less
  show ?case
  proof (cases t)
    case Nil
    then show ?thesis by simp
  next
    case (Cons c cs)
    let ?cs' = "if c = b then dropWhile (\<lambda>x. x = b) cs else cs"
    have "length ?cs' < length t"
      using Cons by (simp add: length_dropWhile_le less_Suc_eq_le)
    then have ih: "no_run2 b (re_sub_runs 2 (\<lambda>x. x = b) [b] ?cs')"
      by (rule less)
    have "c = b \<Longrightarrow> ?cs' \<noteq> [] \<Longrightarrow> hd ?cs' \<noteq> b"
      using hd_dropWhile [of "\<lambda>x. x = b" cs] by simp
    then show ?thesis
      unfolding Cons collapse_Cons no_run2_Cons collapse_Nil_iff collapse_hd
      using ih by auto
  qed
qed

lemma no_run2_dropWhile: "no_run2 a t \<Longrightarrow> no_run2 a (dropWhile P t)"
  by (simp add: dropWhile_eq_drop no_run2_drop)

lemma collapse_keeps_no_run2:
  "a \<noteq> b \<Longrightarrow> no_run2 a t \<Longrightarrow> no_run2 a (re_sub_runs 2 (\<lambda>x. x = b) [b] t)"
proof (induction "length t" arbitrary: t rule: less_induct)
  case less
  show ?case
  proof (cases t)
    case Nil
    then show ?thesis by simp
  next
    case (Cons c cs)
    let ?cs' = "if c = b then dropWhile (\<lambda>x. x = b) cs else cs"
    have len: "length ?cs' < length t"
      using Cons by (simp add: length_dropWhile_le less_Suc_eq_le)
    have "no_run2 a cs"
      using less.prems(2) Cons by (auto simp: no_run2_Cons)
    then have "no_run2 a ?cs'"
      by (simp add: no_run2_dropWhile)
    with len less have ih: "no_run2 a (re_sub_runs 2 (\<lambda>x. x = b) [b] ?cs')"
      by blast
    show ?thesis
      unfolding Cons collapse_Cons no_run2_Cons collapse_Nil_iff collapse_hd
      using ih less.prems Cons by (auto simp: no_run2_Cons)
  qed
qed

lemma collapse_id: "no_run2 b t \<Longrightarrow> re_sub_runs 2 (\<lambda>x. x = b) [b] t = t"
proof (induction t)
  case Nil
  then show ?case by simp
next
  case (Cons c cs)
  then have "no_run2 b cs" and "c = b \<Longrightarrow> cs \<noteq> [] \<Longrightarrow> hd cs \<noteq> b"
    by (auto simp: no_run2_Cons)
  then have "(if c = b then dropWhile (\<lambda>x. x = b) cs else cs) = cs"
    by (cases cs) auto
  then show ?case
    using Cons \<open>no_run2 b cs\<close> by (simp add: collapse_Cons del: re_sub_runs.simps(2))
qed

lemma clean_text_printable: "list_all printable_or_newline (clean_text t)"
proof -
  let ?NP = "\<lambda>c. \<not> ((32 \<le> c \<and> c \<le> 126) \<or> c = 10)"
  let ?t2 = "re_sub_runs 1 ?NP [32] (py_replace_char 160 32 t)"
  let ?t3 = "re_sub_runs 2 (\<lambda>c. c = 32) [32] ?t2"
  let ?t4 = "re_sub_runs 2 (\<lambda>c. c = 10) [10] ?t3"
  have 2: "\<forall>x \<in> set ?t2. printable_or_newline x"
    using re_sub_runs_plus_set [of _ ?NP "[32]"]
    by (fastforce simp: printable_or_newline_def)
  have 3: "\<forall>x \<in> set ?t3. printable_or_newline x"
    using 2 re_sub_runs_set [of 2 "\<lambda>c. c = 32" "[32]" ?t2]
    by (auto simp: printable_or_newline_def)
  have 4: "\<forall>x \<in> set ?t4. printable_or_newline x"
    using 3 re_sub_runs_set [of 2 "\<lambda>c. c = 10" "[10]" ?t3]
    by (auto simp: printable_or_newline_def)
  have "\<forall>x \<in> set (py_strip ?t4). printable_or_newline x"
    using 4 set_strip [of ?t4] by blast
  then show ?thesis
    by (simp add: clean_text_def Let_def list_all_iff)
qed

lemma clean_text_no_runs: "no_run2 32 (clean_text t) \<and> no_run2 10 (clean_text t)"
proof -
  let ?NP = "\<lambda>c. \<not> ((32 \<le> c \<and> c \<le> 126) \<or> c = 10)"
  let ?t2 = "re_sub_runs 1 ?NP [32] (py_replace_char 160 32 t)"
  let ?t3 = "re_sub_runs 2 (\<lambda>c. c = 32) [32] ?t2"
  let ?t4 = "re_sub_runs 2 (\<lambda>c. c = 10) [10] ?t3"
  have "no_run2 32 ?t3"
    by (rule collapse_no_run2)
  then have a: "no_run2 32 ?t4"
    using collapse_keeps_no_run2 [of 32 10 ?t3] by simp
  have b: "no_run2 10 ?t4"
    by (rule collapse_no_run2)
  show ?thesis
    using a b by (simp add: clean_text_def Let_def no_run2_strip)
qed

lemma clean_text_fixed:
  assumes p: "list_all printable_or_newline t"
    and s: "no_run2 32 t" and n: "no_run2 10 t" and o: "no_outer_space t"
  shows "clean_text t = t"
proof -
  have p': "\<forall>c \<in> set t. (32 \<le> c \<and> c \<le> 126) \<or> c = 10"
    using p by (simp add: list_all_iff printable_or_newline_def)
  then have "\<forall>c \<in> set t. c \<noteq> 160"
    by auto
  then have 1: "py_replace_char 160 32 t = t"
    by (simp add: py_replace_char_def map_idI)
  have 2: "re_sub_runs 1 (\<lambda>c. \<not> ((32 \<le> c \<and> c \<le> 126) \<or> c = 10)) [32] t = t"
    using p' by (intro re_sub_runs_id) simp
  show ?thesis
    by (simp only: clean_text_def Let_def 1 2 collapse_id [OF s] collapse_id [OF n]
        strip_id [OF o])
qed

text \<open>
  Claim C9. \<^verbatim>\<open>clean_text\<close> is idempotent: cleaning a cleaned text gives it back. One
  pass already leaves only printable ASCII and newlines, no run of two or more spaces, no
  run of two or more newlines, and no whitespace at the start or at the end.
\<close>

theorem clean_text_idempotent:
  "clean_text (clean_text t) = clean_text t \<and>
   list_all printable_or_newline (clean_text t) \<and>
   no_run2 32 (clean_text t) \<and> no_run2 10 (clean_text t) \<and>
   no_outer_space (clean_text t)"
proof -
  have o: "no_outer_space (clean_text t)"
    by (simp add: clean_text_def Let_def strip_no_outer_space)
  show ?thesis
    using clean_text_printable [of t] clean_text_no_runs [of t] o
    by (simp add: clean_text_fixed)
qed

text \<open>
  At the text space, no-break space, tab, \<open>a\<close>, two newlines, two spaces, newline, \<open>b\<close>,
  em space, \<open>c\<close>, space: one pass gives \<open>a\<close>, newline, space, newline, \<open>b c\<close>, and a
  second pass gives the same.
\<close>

theorem clean_text_idempotent_witness:
  "clean_text (clean_text [32, 160, 9, 97, 10, 10, 32, 32, 10, 98, 8195, 99, 32]) = [97, 10, 32, 10, 98, 32, 99]"
  using clean_text_idempotent [of "[32, 160, 9, 97, 10, 10, 32, 32, 10, 98, 8195, 99, 32]"]
  by (simp add: clean_text_def py_replace_char_def py_strip_def py_isspace_def)

section \<open>The chunker is a sliding window and terminates\<close>

lemma py_slice_window:
  "py_slice xs (int a) (int a + int s) = take s (drop a xs)"
  by (auto simp: py_slice_def Let_def min_def nat_diff_distrib nat_add_distrib)

lemma chunker_loop_done:
  "\<not> start < int (length seq) \<Longrightarrow> chunker_loop seq sz overlap start chunks = Some chunks"
  by (subst chunker_loop.simps) simp

lemma chunker_loop_break:
  "start < int (length seq) \<Longrightarrow> int (length seq) \<le> start + sz \<Longrightarrow>
   chunker_loop seq sz overlap start chunks =
     Some (chunks @ [py_join [32] (py_slice seq start (start + sz))])"
  by (subst chunker_loop.simps) (simp add: Let_def)

lemma chunker_loop_step:
  "start < int (length seq) \<Longrightarrow> start + sz < int (length seq) \<Longrightarrow>
   chunker_loop seq sz overlap start chunks =
     chunker_loop seq sz overlap (start + (sz - overlap))
       (chunks @ [py_join [32] (py_slice seq start (start + sz))])"
  by (subst chunker_loop.simps) (simp add: Let_def)

lemma chunker_loop_windows:
  assumes vs: "v < s"
  shows "\<exists>n. chunker_loop toks (int s) (int v) (int (k * (s - v))) acc =
              Some (acc @ map (\<lambda>j. py_join [32] (window toks s v j)) [k..<k + n])
           \<and> (length toks \<le> k * (s - v) \<longrightarrow> n = 0)
           \<and> (k * (s - v) < length toks \<longrightarrow>
                0 < n \<and> length toks \<le> (k + n - 1) * (s - v) + s
                \<and> (\<forall>j. k \<le> j \<and> j + 1 < k + n \<longrightarrow> j * (s - v) + s < length toks))"
proof (induction "length toks - k * (s - v)" arbitrary: k acc rule: less_induct)
  case less
  let ?d = "s - v"
  let ?f = "\<lambda>j. py_join [32] (window toks s v j)"
  have sl: "py_slice toks (int (k * ?d)) (int (k * ?d) + int s) = window toks s v k"
    by (simp only: py_slice_window window_def)
  show ?case
  proof (cases "k * ?d < length toks")
    case False
    then have "\<not> int (k * ?d) < int (length toks)"
      by (simp only: of_nat_less_iff not_False_eq_True)
    then have "chunker_loop toks (int s) (int v) (int (k * ?d)) acc = Some acc"
      by (rule chunker_loop_done)
    with False show ?thesis
      by (intro exI [of _ 0]) simp
  next
    case inside: True
    then have c1: "int (k * ?d) < int (length toks)"
      by (simp only: of_nat_less_iff)
    show ?thesis
    proof (cases "length toks \<le> k * ?d + s")
      case True
      then have c2: "int (length toks) \<le> int (k * ?d) + int s"
        by linarith
      have "chunker_loop toks (int s) (int v) (int (k * ?d)) acc = Some (acc @ [?f k])"
        using chunker_loop_break [OF c1 c2, of "int v" acc] by (simp only: sl)
      with inside True show ?thesis
        by (intro exI [of _ 1]) simp
    next
      case False
      then have c3: "int (k * ?d) + int s < int (length toks)"
        by linarith
      have "Suc k * ?d = k * ?d + (s - v)"
        by simp
      then have next_start: "int (k * ?d) + (int s - int v) = int (Suc k * ?d)"
        using vs by linarith
      have step: "chunker_loop toks (int s) (int v) (int (k * ?d)) acc =
                  chunker_loop toks (int s) (int v) (int (Suc k * ?d)) (acc @ [?f k])"
        using chunker_loop_step [OF c1 c3, of "int v" acc] by (simp only: sl next_start)
      have dec: "length toks - Suc k * ?d < length toks - k * ?d"
        using inside vs by simp
      have nxt: "Suc k * ?d < length toks"
        using False vs by simp
      from less [OF dec, of "acc @ [?f k]"] nxt obtain m where
        m1: "chunker_loop toks (int s) (int v) (int (Suc k * ?d)) (acc @ [?f k]) =
               Some ((acc @ [?f k]) @ map ?f [Suc k..<Suc k + m])"
        and m2: "0 < m" and m3: "length toks \<le> (Suc k + m - 1) * ?d + s"
        and m4: "\<forall>j. Suc k \<le> j \<and> j + 1 < Suc k + m \<longrightarrow> j * ?d + s < length toks"
        by blast
      have l: "[k..<k + Suc m] = k # [Suc k..<Suc k + m]"
        by (simp add: upt_conv_Cons)
      have a: "chunker_loop toks (int s) (int v) (int (k * ?d)) acc =
               Some (acc @ map ?f [k..<k + Suc m])"
        by (simp only: step m1 l) simp
      have b: "\<forall>j. k \<le> j \<and> j + 1 < k + Suc m \<longrightarrow> j * ?d + s < length toks"
      proof (intro allI impI)
        fix j assume j: "k \<le> j \<and> j + 1 < k + Suc m"
        show "j * ?d + s < length toks"
        proof (cases "j = k")
          case True
          then show ?thesis using False by simp
        next
          case False
          then show ?thesis using j m4 by simp
        qed
      qed
      show ?thesis
        using a b m3 inside by (intro exI [of _ "Suc m"]) simp
    qed
  qed
qed

lemma window_covers:
  assumes d: "0 < s - v" and n: "0 < n" and e: "length toks \<le> (n - 1) * (s - v) + s"
    and i: "i < length toks"
  shows "\<exists>k<n. k * (s - v) \<le> i \<and> i < k * (s - v) + s \<and> toks ! i \<in> set (window toks s v k)"
proof -
  let ?d = "s - v"
  define k where "k = min (i div ?d) (n - 1)"
  have kn: "k < n"
    using n unfolding k_def by linarith
  have lo: "k * ?d \<le> i"
  proof -
    have "k * ?d \<le> (i div ?d) * ?d"
      by (simp add: k_def)
    also have "\<dots> \<le> i"
      by simp
    finally show ?thesis .
  qed
  have hi: "i < k * ?d + s"
  proof (cases "i div ?d \<le> n - 1")
    case True
    then have "k = i div ?d"
      by (simp add: k_def)
    moreover have "i < (i div ?d) * ?d + ?d"
      using d by (metis add.commute dividend_less_div_times)
    ultimately show ?thesis by simp
  next
    case False
    then have "k = n - 1"
      by (simp add: k_def)
    then show ?thesis using e i by simp
  qed
  have "toks ! i = drop (k * ?d) toks ! (i - k * ?d)"
    using lo i by simp
  moreover have "i - k * ?d < length (take s (drop (k * ?d) toks))"
    using lo hi i by (simp, arith)
  ultimately have "toks ! i \<in> set (window toks s v k)"
    unfolding window_def by (metis nth_take length_take min_less_iff_conj nth_mem)
  with kn lo hi show ?thesis by blast
qed

lemma window_overlap:
  assumes vs: "v < s" and k: "k * (s - v) + s < length toks"
  shows "drop (s - v) (window toks s v k) = take v (window toks s v (Suc k)) \<and>
         length (take v (window toks s v (Suc k))) = v \<and> length (window toks s v k) = s"
proof -
  let ?d = "s - v"
  have 1: "drop ?d (window toks s v k) = take v (drop (Suc k * ?d) toks)"
    using vs by (simp add: window_def drop_take add.commute)
  have 2: "take v (window toks s v (Suc k)) = take v (drop (Suc k * ?d) toks)"
    using vs by (simp add: window_def min_def)
  have 3: "length (take v (drop (Suc k * ?d) toks)) = v"
    using vs k by simp
  have 4: "length (window toks s v k) = s"
    using k by (simp add: window_def)
  show ?thesis
    by (simp only: 1 2 3 4)
qed

lemma chunker_loop_windows0:
  assumes vs: "v < s"
  shows "\<exists>n. chunker_loop toks (int s) (int v) 0 [] =
              Some (map (\<lambda>j. py_join [32] (window toks s v j)) [0..<n])
           \<and> (toks = [] \<longrightarrow> n = 0)
           \<and> (toks \<noteq> [] \<longrightarrow> 0 < n \<and> length toks \<le> (n - 1) * (s - v) + s)
           \<and> (\<forall>j. j + 1 < n \<longrightarrow> j * (s - v) + s < length toks)"
  using chunker_loop_windows [OF vs, of toks 0 "[]"]
proof (elim exE conjE, goal_cases)
  case (1 n)
  have a: "chunker_loop toks (int s) (int v) 0 [] =
             Some (map (\<lambda>j. py_join [32] (window toks s v j)) [0..<n])"
    using 1(1) by simp
  have b: "toks = [] \<longrightarrow> n = 0"
    using 1(2) by simp
  have c: "toks \<noteq> [] \<longrightarrow> 0 < n \<and> length toks \<le> (n - 1) * (s - v) + s"
    using 1(3) by simp
  have d: "\<forall>j. j + 1 < n \<longrightarrow> j * (s - v) + s < length toks"
  proof (cases "toks = []")
    case True
    with b show ?thesis by simp
  next
    case False
    with 1(3) show ?thesis by simp
  qed
  show ?case
    by (intro exI [of _ n] conjI a b c d)
qed

text \<open>
  Claim C1. For a chunk size \<open>s > 0\<close> and an overlap \<open>0 \<le> v < s\<close>, \<^verbatim>\<open>chunker\<close> returns,
  for the token list of the cleaned text, the space-joins of the windows \<open>0, \<dots>, n - 1\<close>,
  where window \<open>k\<close> holds the tokens at positions \<open>k * (s - v)\<close> through
  \<open>k * (s - v) + s - 1\<close> (cut off at the end of the list) and \<open>n - 1\<close> is the first
  window that reaches the end of the list (no window when there is no token). Hence every
  token position lies in some window, and the last \<open>v\<close> tokens of a window are the first
  \<open>v\<close> tokens of the next one.
\<close>

theorem chunker_sliding_window:
  assumes "0 < s" and "0 \<le> v" and "v < s"
  shows "\<exists>n. chunker t s v =
             Some (map (\<lambda>k. py_join [32] (window (chunker_tokens t) (nat s) (nat v) k)) [0..<n])
    \<and> (chunker_tokens t = [] \<longrightarrow> n = 0)
    \<and> (chunker_tokens t \<noteq> [] \<longrightarrow>
          0 < n \<and> length (chunker_tokens t) \<le> (n - 1) * (nat s - nat v) + nat s)
    \<and> (\<forall>k. k + 1 < n \<longrightarrow> k * (nat s - nat v) + nat s < length (chunker_tokens t))
    \<and> (\<forall>i<length (chunker_tokens t). \<exists>k<n.
          k * (nat s - nat v) \<le> i \<and> i < k * (nat s - nat v) + nat s \<and>
          chunker_tokens t ! i \<in> set (window (chunker_tokens t) (nat s) (nat v) k))
    \<and> (\<forall>k. k + 1 < n \<longrightarrow>
          drop (nat s - nat v) (window (chunker_tokens t) (nat s) (nat v) k) =
            take (nat v) (window (chunker_tokens t) (nat s) (nat v) (Suc k)) \<and>
          length (take (nat v) (window (chunker_tokens t) (nat s) (nat v) (Suc k))) = nat v \<and>
          length (window (chunker_tokens t) (nat s) (nat v) k) = nat s)"
proof -
  define S V toks where "S = nat s" and "V = nat v" and "toks = chunker_tokens t"
  have sv: "s = int S" "v = int V" and VS: "V < S"
    using assms by (simp_all add: S_def V_def)
  from chunker_loop_windows0 [OF VS, of toks] obtain n where
    run: "chunker_loop toks (int S) (int V) 0 [] =
            Some (map (\<lambda>j. py_join [32] (window toks S V j)) [0..<n])"
    and emp: "toks = [] \<longrightarrow> n = 0"
    and ne: "toks \<noteq> [] \<longrightarrow> 0 < n \<and> length toks \<le> (n - 1) * (S - V) + S"
    and early: "\<forall>k. k + 1 < n \<longrightarrow> k * (S - V) + S < length toks"
    by blast
  have c: "chunker t s v = Some (map (\<lambda>k. py_join [32] (window toks S V k)) [0..<n])"
    unfolding chunker_def sv toks_def chunker_tokens_def
    using run [unfolded toks_def chunker_tokens_def] .
  have cover: "\<forall>i<length toks. \<exists>k<n.
      k * (S - V) \<le> i \<and> i < k * (S - V) + S \<and> toks ! i \<in> set (window toks S V k)"
  proof (intro allI impI)
    fix i assume i: "i < length toks"
    then have "toks \<noteq> []"
      by auto
    with ne have "0 < n" and "length toks \<le> (n - 1) * (S - V) + S"
      by simp_all
    moreover have "0 < S - V"
      using VS by simp
    ultimately show "\<exists>k<n. k * (S - V) \<le> i \<and> i < k * (S - V) + S \<and>
        toks ! i \<in> set (window toks S V k)"
      using i by (intro window_covers)
  qed
  have share: "\<forall>k. k + 1 < n \<longrightarrow>
      drop (S - V) (window toks S V k) = take V (window toks S V (Suc k)) \<and>
      length (take V (window toks S V (Suc k))) = V \<and> length (window toks S V k) = S"
  proof (intro allI impI)
    fix k assume "k + 1 < n"
    with early have "k * (S - V) + S < length toks"
      by simp
    then show "drop (S - V) (window toks S V k) = take V (window toks S V (Suc k)) \<and>
      length (take V (window toks S V (Suc k))) = V \<and> length (window toks S V k) = S"
      by (rule window_overlap [OF VS])
  qed
  have "\<exists>n. chunker t s v = Some (map (\<lambda>k. py_join [32] (window toks S V k)) [0..<n])
    \<and> (toks = [] \<longrightarrow> n = 0)
    \<and> (toks \<noteq> [] \<longrightarrow> 0 < n \<and> length toks \<le> (n - 1) * (S - V) + S)
    \<and> (\<forall>k. k + 1 < n \<longrightarrow> k * (S - V) + S < length toks)
    \<and> (\<forall>i<length toks. \<exists>k<n.
          k * (S - V) \<le> i \<and> i < k * (S - V) + S \<and> toks ! i \<in> set (window toks S V k))
    \<and> (\<forall>k. k + 1 < n \<longrightarrow>
          drop (S - V) (window toks S V k) = take V (window toks S V (Suc k)) \<and>
          length (take V (window toks S V (Suc k))) = V \<and> length (window toks S V k) = S)"
    by (intro exI [of _ n] conjI c emp ne early cover share)
  then show ?thesis
    unfolding S_def V_def toks_def .
qed

lemma tokens_example:
  "chunker_tokens (str ''a b  c d e'') = [[97], [98], [99], [100], [101]]"
  by (simp add: chunker_tokens_def str_def clean_text_def py_replace_char_def py_strip_def
      py_split.simps py_isspace_def)

theorem chunker_sliding_window_witness:
  "(0::int) < 3 \<and> (0::int) \<le> 1 \<and> (1::int) < 3 \<and>
   chunker (str ''a b  c d e'') 3 1 = Some [str ''a b c'', str ''c d e'']"
proof -
  have e: "chunker (str ''a b  c d e'') 3 1 = Some [str ''a b c'', str ''c d e'']"
    using tokens_example
    by (simp add: chunker_def chunker_tokens_def chunker_loop.simps py_slice_def str_def)
  from chunker_sliding_window [of 3 1 "str ''a b  c d e''"] e show ?thesis
    by simp
qed

lemma chunker_loop_stuck:
  assumes run: "chunker_loop seq sz overlap start chunks = Some y"
  shows "\<not> (sz = overlap \<and> start < int (length seq) \<and> start + sz < int (length seq))"
proof (rule chunker_loop.raw_induct [where P = "\<lambda>seq sz overlap start chunks y.
        \<not> (sz = overlap \<and> start < int (length seq) \<and> start + sz < int (length seq))",
        OF _ run], goal_cases)
  case (1 f seq sz overlap start chunks y)
  show ?case
  proof
    assume h: "sz = overlap \<and> start < int (length seq) \<and> start + sz < int (length seq)"
    with 1(2) have "f seq sz overlap start
        (chunks @ [py_join [32] (py_slice seq start (start + sz))]) = Some y"
      by (simp add: Let_def)
    from 1(1) [OF this] h show False
      by simp
  qed
qed

lemma chunker_loop_returns:
  assumes s: "0 < s" and v: "v < s"
  shows "\<exists>cs. chunker_loop toks s v start acc = Some cs"
proof (induction "nat (int (length toks) - start)" arbitrary: start acc rule: less_induct)
  case less
  show ?case
  proof (cases "start < int (length toks)")
    case False
    then show ?thesis
      by (simp add: chunker_loop_done)
  next
    case inside: True
    show ?thesis
    proof (cases "int (length toks) \<le> start + s")
      case True
      with inside show ?thesis
        by (simp add: chunker_loop_break)
    next
      case False
      then have st: "start + s < int (length toks)"
        by simp
      have "nat (int (length toks) - (start + (s - v))) < nat (int (length toks) - start)"
        using inside v by linarith
      from less [OF this] obtain cs where
        "chunker_loop toks s v (start + (s - v))
           (acc @ [py_join [32] (py_slice toks start (start + s))]) = Some cs"
        by blast
      then have "chunker_loop toks s v start acc = Some cs"
        by (simp only: chunker_loop_step [OF inside st])
      then show ?thesis
        by blast
    qed
  qed
qed

text \<open>
  Claim C8. When the size is positive and the overlap is below the size, \<^verbatim>\<open>chunker\<close>
  returns on every text: an iteration of the loop whose window reaches the end of the
  token list returns, and any other iteration goes on with a start that is larger by
  \<open>size - overlap > 0\<close>. Without the condition the loop need not end: with size 1 and
  overlap 1 it never returns on the text \<open>a b\<close>.
\<close>

theorem chunker_terminates:
  assumes "0 < s" and "v < s"
  shows "(\<exists>cs. chunker t s v = Some cs) \<and>
    (\<forall>seq start chunks. start < int (length seq) \<longrightarrow>
       (if int (length seq) \<le> start + s
        then chunker_loop seq s v start chunks =
               Some (chunks @ [py_join [32] (py_slice seq start (start + s))])
        else chunker_loop seq s v start chunks =
               chunker_loop seq s v (start + (s - v))
                 (chunks @ [py_join [32] (py_slice seq start (start + s))]) \<and>
             start < start + (s - v))) \<and>
    chunker (str ''a b'') 1 1 = None"
proof -
  have 1: "\<exists>cs. chunker t s v = Some cs"
    unfolding chunker_def using assms by (rule chunker_loop_returns)
  have 2: "\<forall>seq start chunks. start < int (length seq) \<longrightarrow>
       (if int (length seq) \<le> start + s
        then chunker_loop seq s v start chunks =
               Some (chunks @ [py_join [32] (py_slice seq start (start + s))])
        else chunker_loop seq s v start chunks =
               chunker_loop seq s v (start + (s - v))
                 (chunks @ [py_join [32] (py_slice seq start (start + s))]) \<and>
             start < start + (s - v))"
  proof (intro allI impI)
    fix seq :: "pystr list" and start :: int and chunks :: "pystr list"
    assume inside: "start < int (length seq)"
    show "if int (length seq) \<le> start + s
        then chunker_loop seq s v start chunks =
               Some (chunks @ [py_join [32] (py_slice seq start (start + s))])
        else chunker_loop seq s v start chunks =
               chunker_loop seq s v (start + (s - v))
                 (chunks @ [py_join [32] (py_slice seq start (start + s))]) \<and>
             start < start + (s - v)"
    proof (cases "int (length seq) \<le> start + s")
      case True
      with inside show ?thesis
        by (simp only: chunker_loop_break if_True)
    next
      case False
      then have "start + s < int (length seq)"
        by simp
      from chunker_loop_step [OF inside this, of v chunks] False assms show ?thesis
        by simp
    qed
  qed
  have "py_split (clean_text (str ''a b'')) = [[97], [98]]"
    by (simp add: str_def clean_text_def py_replace_char_def py_strip_def
      py_split.simps py_isspace_def)
  then have 3: "chunker (str ''a b'') 1 1 = None"
    using chunker_loop_stuck [of "[[97], [98]]" 1 1 0 "[]"]
    by (cases "chunker (str ''a b'') 1 1") (auto simp: chunker_def)
  show ?thesis using 1 2 3 by blast
qed

text \<open>
  With size 2 and the negative overlap \<open>-1\<close> the start moves on by 3: the text
  \<open>a b c d e\<close> gives the chunks \<open>a b\<close> and \<open>d e\<close>.
\<close>

theorem chunker_terminates_witness:
  "(0::int) < 2 \<and> (- 1::int) < 2 \<and>
   chunker (str ''a b c d e'') 2 (- 1) = Some [str ''a b'', str ''d e''] \<and>
   chunker (str ''a b'') 1 1 = None"
proof -
  have "py_split (clean_text (str ''a b c d e'')) = [[97], [98], [99], [100], [101]]"
    by (simp add: str_def clean_text_def py_replace_char_def py_strip_def
      py_split.simps py_isspace_def)
  then have e: "chunker (str ''a b c d e'') 2 (- 1) = Some [str ''a b'', str ''d e'']"
    by (simp add: chunker_def chunker_loop.simps py_slice_def str_def)
  from chunker_terminates [of 2 "- 1" "str ''a b c d e''"] e show ?thesis
    by simp
qed

section \<open>Rejected uploads and queries\<close>

lemma py_strip_blank:
  assumes "\<forall>c\<in>set t. py_isspace c"
  shows "py_strip t = []"
proof -
  have d: "dropWhile py_isspace t = []"
    using assms by (induction t) simp_all
  show ?thesis
    by (simp only: py_strip_def d rev.simps dropWhile.simps)
qed

text \<open>
  Claim C4. An upload whose file name is missing (\<^verbatim>\<open>None\<close> or empty), or whose
  lowercased extension is not \<^verbatim>\<open>.txt\<close>, \<^verbatim>\<open>.pdf\<close> or \<^verbatim>\<open>.docx\<close>, makes
  \<^verbatim>\<open>upload_document\<close> raise \<open>FileTypeError\<close> in the world it was called in (no file
  was read, no call was made), and the upload endpoint answers 400.
\<close>

theorem upload_rejects_unsupported_type:
  assumes "filename file = None \<or> filename file = Some [] \<or>
           (\<exists>f. filename file = Some f \<and>
                py_lower (snd (splitext f)) \<notin> {str ''.txt'', str ''.pdf'', str ''.docx''})"
  shows "upload_document e file user_id w = (Raise FileTypeError, w) \<and>
         upload_document_endpoint e file user_id w = (Some 400, w)"
proof -
  have "upload_document e file user_id w = (Raise FileTypeError, w)"
    using assms by (auto simp: upload_document_def Let_def split: option.splits)
  then show ?thesis
    by (simp add: upload_document_endpoint_def respond_def)
qed

lemma splitext_example: "splitext (str ''notes.md'') = (str ''notes'', str ''.md'')"
  by (simp add: splitext_def rfind_def str_def py_slice_def Let_def)

theorem upload_rejects_unsupported_type_witness:
  "upload_document example_env \<lparr>filename = Some (str ''notes.md''), content = []\<rparr>
     (str ''u1'') fresh_world = (Raise FileTypeError, fresh_world) \<and>
   upload_document_endpoint example_env \<lparr>filename = Some (str ''notes.md''), content = []\<rparr>
     (str ''u1'') fresh_world = (Some 400, fresh_world)"
proof -
  have "py_lower (snd (splitext (str ''notes.md''))) \<notin> {str ''.txt'', str ''.pdf'', str ''.docx''}"
    by (simp add: splitext_example) (simp add: str_def py_lower_def)
  then show ?thesis
    using upload_rejects_unsupported_type
      [of "\<lparr>filename = Some (str ''notes.md''), content = []\<rparr>" example_env "str ''u1''" fresh_world]
    by simp
qed

text \<open>
  Claim C5. A query that is empty or holds only whitespace makes
  \<^verbatim>\<open>search_user_documents\<close> raise \<open>EmptyDocumentError\<close> in the world it was called in
  (neither the embedder nor the vector store was called), and the search endpoint answers
  400.
\<close>

theorem search_rejects_blank_query:
  assumes "\<forall>c\<in>set query. py_isspace c"
  shows "search_user_documents e query top_k user_id w = (Raise EmptyDocumentError, w) \<and>
         search_documents_endpoint e query top_k user_id w = (Some 400, w)"
  using assms
  by (simp add: search_user_documents_def search_documents_endpoint_def respond_def
      py_strip_blank)

theorem search_rejects_blank_query_witness:
  "search_user_documents example_env [32, 9, 10] 5 (str ''u1'') fresh_world =
     (Raise EmptyDocumentError, fresh_world) \<and>
   search_documents_endpoint example_env [32, 9, 10] 5 (str ''u1'') fresh_world =
     (Some 400, fresh_world)"
  using search_rejects_blank_query [of "[32, 9, 10]" example_env 5 "str ''u1''" fresh_world]
  by (simp add: py_isspace_def)

section \<open>Retrieving a document\<close>

text \<open>
  Claim C10. When \<^verbatim>\<open>get_user_document\<close> returns, the chunks of the document it
  returns are in nondecreasing order of \<^verbatim>\<open>chunk_index\<close> (0 for a chunk without one),
  and they are the chunks the vector store returned, in whatever order it returned them.
\<close>

theorem get_user_document_sorted:
  assumes "get_user_document e doc_id user_id w = (Return d, w')"
  shows "sorted (map (\<lambda>x. case p_chunk_index x of Some i \<Rightarrow> i | None \<Rightarrow> 0) (dc_chunks d)) \<and>
         (\<exists>chunks. get_points_by_doc_id e doc_id (Some user_id) w = (Return chunks, w') \<and>
            chunks \<noteq> [] \<and> mset (dc_chunks d) = mset chunks)"
proof -
  from assms obtain chunks w1 where
    g: "get_points_by_doc_id e doc_id (Some user_id) w = (Return chunks, w1)"
    and r: "(case chunks of
               [] \<Rightarrow> (Raise DocumentNotFoundError, w1)
             | first # _ \<Rightarrow>
                 let doc_metadata =
                       (case p_doc_metadata first of
                          Some m \<Rightarrow> m
                        | None \<Rightarrow>
                            \<lparr>dm_doc_id = doc_id, dm_user_id = user_id,
                             dm_filename =
                               (case p_filename first of Some f \<Rightarrow> f | None \<Rightarrow> str ''Unknown''),
                             dm_file_type = (case p_file_type first of Some t \<Rightarrow> t | None \<Rightarrow> []),
                             dm_chunks_count = length chunks,
                             dm_created_at =
                               (case p_created_at first of Some c \<Rightarrow> c | None \<Rightarrow> [])\<rparr>)
                 in (Return
                       \<lparr>dc_metadata = doc_metadata,
                        dc_chunks =
                          sort_key (\<lambda>x. case p_chunk_index x of Some i \<Rightarrow> i | None \<Rightarrow> 0) chunks\<rparr>,
                     w1)) = (Return d, w')"
    unfolding get_user_document_def try_except_Return and_then_Return by blast
  from r have ne: "chunks \<noteq> []" and w: "w1 = w'"
    and d: "dc_chunks d = sort_key (\<lambda>x. case p_chunk_index x of Some i \<Rightarrow> i | None \<Rightarrow> 0) chunks"
    by (auto simp: Let_def split: list.splits)
  show ?thesis
    using g ne w d by simp
qed

text \<open>
  A store that holds the chunks 2, 0, 1 of a document of user \<open>u1\<close>, and a chunk of
  another user in between: the service returns the chunks 0, 1, 2.
\<close>

theorem get_user_document_sorted_witness:
  "\<exists>d w'. get_user_document example_env (str ''d1'') (str ''u1'')
            (stored_world [example_point (str ''d1'') (str ''u1'') 2,
                           example_point (str ''d1'') (str ''u1'') 0,
                           example_point (str ''d1'') (str ''u2'') 5,
                           example_point (str ''d1'') (str ''u1'') 1]) = (Return d, w') \<and>
          map p_chunk_index (dc_chunks d) = [Some 0, Some 1, Some 2] \<and>
          sorted (map (\<lambda>x. case p_chunk_index x of Some i \<Rightarrow> i | None \<Rightarrow> 0) (dc_chunks d))"
proof -
  let ?w = "stored_world [example_point (str ''d1'') (str ''u1'') 2,
                           example_point (str ''d1'') (str ''u1'') 0,
                           example_point (str ''d1'') (str ''u2'') 5,
                           example_point (str ''d1'') (str ''u1'') 1]"
  have "\<exists>d w'. get_user_document example_env (str ''d1'') (str ''u1'') ?w = (Return d, w') \<and>
          map p_chunk_index (dc_chunks d) = [Some 0, Some 1, Some 2]"
    by (simp add: get_user_document_def repository_defs example_defs Let_def)
  then show ?thesis
  proof (elim exE conjE)
    fix d w'
    assume r: "get_user_document example_env (str ''d1'') (str ''u1'') ?w = (Return d, w')"
      and i: "map p_chunk_index (dc_chunks d) = [Some 0, Some 1, Some 2]"
    from get_user_document_sorted [OF r]
    have s: "sorted (map (\<lambda>x. case p_chunk_index x of Some i \<Rightarrow> i | None \<Rightarrow> 0) (dc_chunks d))"
      by (rule conjunct1)
    show ?thesis
      by (rule exI [of _ d], rule exI [of _ w'], intro conjI r i s)
  qed
qed

section \<open>Exceptions of the upload pipeline\<close>

lemma process_document_raises:
  assumes "process_document e fname bytes w = (Raise x, w')"
  shows "x \<in> {FileTypeError, EmptyDocumentError, ChunkingError, EmbeddingError,
              FileProcessingError}"
proof -
  from try_except_Raise [OF assms [unfolded process_document_def]] obtain y where
    "x = (if y \<in> {FileTypeError, EmptyDocumentError, ChunkingError, EmbeddingError,
                   FileProcessingError}
          then y else FileProcessingError)"
    by (rule exE)
  then show ?thesis
    by (cases "y \<in> {FileTypeError, EmptyDocumentError, ChunkingError, EmbeddingError,
                   FileProcessingError}") simp_all
qed

text \<open>
  Claim C2 says that the pipeline exceptions of \<^verbatim>\<open>_process_document\<close> leave
  \<^verbatim>\<open>upload_document\<close> unchanged. They do not: the handlers of
  \<^verbatim>\<open>upload_document\<close> let only \<open>VectorCollectionError\<close> and \<open>PointError\<close> pass, and
  \<^verbatim>\<open>_process_document\<close> raises neither, so whatever it raises leaves the service as
  \<open>DocumentRepositoryError\<close> and the endpoint answers 500.
\<close>

theorem upload_wraps_pipeline_errors:
  assumes f: "filename file = Some fname" and n: "fname \<noteq> []"
    and x: "py_lower (snd (splitext fname)) \<in> {str ''.txt'', str ''.pdf'', str ''.docx''}"
    and p: "process_document e fname (content file) w = (Raise x, w')"
  shows "upload_document e file user_id w = (Raise DocumentRepositoryError, w') \<and>
         upload_document_endpoint e file user_id w = (Some 500, w')"
proof -
  from process_document_raises [OF p] have "x \<noteq> VectorCollectionError" and "x \<noteq> PointError"
    by auto
  then have "upload_document e file user_id w = (Raise DocumentRepositoryError, w')"
    using f n x p by (simp add: upload_document_def Let_def and_then_def try_except_def)
  then show ?thesis
    by (simp add: upload_document_endpoint_def respond_def)
qed

lemma process_blank_document:
  "process_document example_env (str ''a.txt'') [32, 10, 32] fresh_world =
     (Raise EmptyDocumentError, fresh_world\<lparr>calls := [Call_file_read, Call_load_document]\<rparr>)"
  by (simp add: process_document_def load_document_def extract_from_txt_def example_defs
      splitext_def rfind_def py_slice_def py_lower_def py_strip_def py_isspace_def
      try_except_def and_then_def record_call_def Let_def)

text \<open>
  The upload of \<^verbatim>\<open>a.txt\<close> with the content space, newline, space:
  \<^verbatim>\<open>_process_document\<close> raises \<open>EmptyDocumentError\<close>, for which the endpoint has a
  handler that answers 400, and the endpoint answers 500.
\<close>

theorem upload_wraps_pipeline_errors_witness:
  "process_document example_env (str ''a.txt'') [32, 10, 32] fresh_world =
     (Raise EmptyDocumentError, fresh_world\<lparr>calls := [Call_file_read, Call_load_document]\<rparr>) \<and>
   upload_document example_env \<lparr>filename = Some (str ''a.txt''), content = [32, 10, 32]\<rparr>
     (str ''u1'') fresh_world =
     (Raise DocumentRepositoryError, fresh_world\<lparr>calls := [Call_file_read, Call_load_document]\<rparr>) \<and>
   upload_document_endpoint example_env \<lparr>filename = Some (str ''a.txt''), content = [32, 10, 32]\<rparr>
     (str ''u1'') fresh_world =
     (Some 500, fresh_world\<lparr>calls := [Call_file_read, Call_load_document]\<rparr>) \<and>
   upload_status EmptyDocumentError = 400"
proof -
  have x: "py_lower (snd (splitext (str ''a.txt''))) \<in> {str ''.txt'', str ''.pdf'', str ''.docx''}"
    by (simp add: str_def splitext_def rfind_def py_slice_def py_lower_def Let_def)
  from upload_wraps_pipeline_errors
    [of "\<lparr>filename = Some (str ''a.txt''), content = [32, 10, 32]\<rparr>" "str ''a.txt''"
        example_env fresh_world EmptyDocumentError
        "fresh_world\<lparr>calls := [Call_file_read, Call_load_document]\<rparr>" "str ''u1''"]
    x process_blank_document
  show ?thesis
    by (simp add: str_def)
qed

section \<open>The calls and effects of the repository\<close>

text \<open>
  Each method of the repository adds calls to the record and changes the points of the
  collection in one way only; the lemmas below say which, for every outcome.
\<close>

lemma and_then_simps [simp]:
  "and_then (Return x, w) k = k x w"
  "and_then (Raise y, w) k = (Raise y, w)"
  "and_then (Diverge, w) k = (Diverge, w)"
  by (simp_all add: and_then_def)

lemma try_except_simps [simp]:
  "try_except (Return x, w) h = (Return x, w)"
  "try_except (Raise y, w) h = (Raise (h y), w)"
  "try_except (Diverge, w) h = (Diverge, w)"
  by (simp_all add: try_except_def)

lemma record_call_simps [simp]:
  "qdrant (record_call c w) = qdrant w"
  "collection_ready (record_call c w) = collection_ready w"
  "calls (record_call c w) = calls w @ [c]"
  "stored_points (record_call c w) = stored_points w"
  by (simp_all add: record_call_def stored_points_def)

lemma stored_points_simps [simp]:
  "stored_points (w\<lparr>collection_ready := b\<rparr>) = stored_points w"
  "stored_points (w\<lparr>qdrant := Some c\<rparr>) = c_points c"
  "qdrant w = None \<Longrightarrow> stored_points w = []"
  "qdrant w = Some c \<Longrightarrow> stored_points w = c_points c"
  by (simp_all add: stored_points_def)

lemma create_payload_indices_spec:
  "create_payload_indices e names w = (r, w') \<Longrightarrow>
   (\<exists>cs. calls w' = calls w @ cs \<and> list_all setup_call cs) \<and>
   qdrant w' = qdrant w \<and> collection_ready w' = collection_ready w \<and>
   (r = Return () \<or> r = Raise OtherError)"
proof (induction names arbitrary: w)
  case Nil
  then show ?case by auto
next
  case (Cons name names)
  show ?case
  proof (cases "client_raises e Op_create_payload_index \<or> qdrant w = None")
    case True
    with Cons.prems show ?thesis
      by (auto simp: client_create_payload_index_def Let_def)
  next
    case False
    then have "create_payload_indices e names (record_call (Call_create_payload_index name) w)
                 = (r, w')"
      using Cons.prems
      by (auto simp: client_create_payload_index_def Let_def)
    from Cons.IH [OF this] show ?thesis
      by auto
  qed
qed

lemma ensure_collection_exists_spec:
  assumes "ensure_collection_exists e w = (r, w')"
  shows "(\<exists>cs. calls w' = calls w @ cs \<and> list_all setup_call cs) \<and>
         stored_points w' = stored_points w \<and>
         (r = Return () \<or> r = Raise VectorCollectionError) \<and>
         (r = Return () \<longrightarrow>
            collection_ready w' \<and>
            (qdrant w' = qdrant w \<or>
             (qdrant w = None \<and> \<not> collection_ready w \<and>
              qdrant w' = Some \<lparr>c_size = VECTOR_SIZE e, c_points = []\<rparr>)))"
proof (cases "collection_ready w")
  case True
  with assms show ?thesis
    by (auto simp: ensure_collection_exists_def)
next
  case nr: False
  show ?thesis
  proof (cases "client_raises e Op_collection_exists")
    case True
    with assms nr show ?thesis
      by (auto simp: ensure_collection_exists_def client_collection_exists_def Let_def)
  next
    case ce: False
    show ?thesis
    proof (cases "qdrant w")
      case (Some c)
      with assms nr ce show ?thesis
        by (auto simp: ensure_collection_exists_def client_collection_exists_def Let_def)
    next
      case None
      show ?thesis
      proof (cases "client_raises e Op_create_collection")
        case True
        with assms nr ce None show ?thesis
          by (auto simp: ensure_collection_exists_def client_collection_exists_def
              client_create_collection_def Let_def)
      next
        case False
        let ?w2 = "record_call (Call_create_collection (VECTOR_SIZE e))
                     (record_call Call_collection_exists w)
                     \<lparr>qdrant := Some \<lparr>c_size = VECTOR_SIZE e, c_points = []\<rparr>\<rparr>"
        obtain r2 w3 where i: "create_payload_indices e index_fields ?w2 = (r2, w3)"
          by (cases "create_payload_indices e index_fields ?w2") blast
        from create_payload_indices_spec [OF i] obtain cs where
          cs: "calls w3 = calls ?w2 @ cs" "list_all setup_call cs"
          and q: "qdrant w3 = qdrant ?w2" and r2: "r2 = Return () \<or> r2 = Raise OtherError"
          by blast
        have c2: "calls w3 =
            calls w @ (Call_collection_exists # Call_create_collection (VECTOR_SIZE e) # cs)"
          using cs(1) by simp
        have res: "(r, w') = (if r2 = Return () then (Return (), w3\<lparr>collection_ready := True\<rparr>)
                     else (Raise VectorCollectionError, w3))"
          using assms nr ce None False i r2
          by (auto simp: ensure_collection_exists_def client_collection_exists_def
              client_create_collection_def Let_def)
        have sp: "stored_points w3 = []" "stored_points w = []"
          using q None by (simp_all add: stored_points_def)
        have l: "list_all setup_call
            (Call_collection_exists # Call_create_collection (VECTOR_SIZE e) # cs)"
          using cs(2) by simp
        show ?thesis
        proof (cases "r2 = Return ()")
          case True
          with res have "r = Return ()" and "w' = w3\<lparr>collection_ready := True\<rparr>"
            by simp_all
          then show ?thesis
            using c2 l sp q None nr by auto
        next
          case False
          with res have "r = Raise VectorCollectionError" and "w' = w3"
            by simp_all
          then show ?thesis
            using c2 l sp by auto
        qed
      qed
    qed
  qed
qed

lemma new_calls_append: "calls w' = calls w @ cs \<Longrightarrow> new_calls w w' = cs"
  by (simp add: new_calls_def)

lemma get_points_by_doc_id_spec:
  assumes "get_points_by_doc_id e doc_id user_id w = (r, w')"
  shows "(\<exists>cs. calls w' = calls w @ cs \<and>
              list_all (\<lambda>c. setup_call c \<or> c = Call_scroll (doc_filter doc_id user_id)) cs) \<and>
         stored_points w' = stored_points w \<and>
         (r = Raise VectorCollectionError \<or> r = Raise PointError \<or>
          (r = Return (map pt_payload
                 (take 1000 (filter (matches (doc_filter doc_id user_id)) (stored_points w)))) \<and>
           collection_ready w'))"
proof -
  obtain r1 w1 where en: "ensure_collection_exists e w = (r1, w1)"
    by (cases "ensure_collection_exists e w") blast
  from ensure_collection_exists_spec [OF en] obtain cs where
    cs: "calls w1 = calls w @ cs" "list_all setup_call cs"
    and sp: "stored_points w1 = stored_points w"
    and r1: "r1 = Return () \<or> r1 = Raise VectorCollectionError"
    and rd: "r1 = Return () \<longrightarrow> collection_ready w1"
    by blast
  have l: "list_all (\<lambda>c. setup_call c \<or> c = Call_scroll (doc_filter doc_id user_id)) cs"
    using cs(2) by (simp add: list_all_iff)
  show ?thesis
  proof (cases "r1 = Return ()")
    case False
    with r1 assms en have "r = Raise VectorCollectionError" and "w' = w1"
      by (auto simp: get_points_by_doc_id_def)
    then show ?thesis
      using cs(1) l sp by auto
  next
    case True
    then have res: "(r, w') =
        try_except
          (and_then (client_scroll e (doc_filter doc_id user_id) 1000 w1)
             (\<lambda>points w2. (Return (map pt_payload points), w2)))
          (\<lambda>_. PointError)"
      using assms en by (simp add: get_points_by_doc_id_def)
    have c1: "calls (record_call (Call_scroll (doc_filter doc_id user_id)) w1) =
        calls w @ (cs @ [Call_scroll (doc_filter doc_id user_id)])"
      using cs(1) by simp
    have l1: "list_all (\<lambda>c. setup_call c \<or> c = Call_scroll (doc_filter doc_id user_id))
        (cs @ [Call_scroll (doc_filter doc_id user_id)])"
      using l by simp
    show ?thesis
    proof (cases "qdrant w1")
      case None
      with res have "r = Raise PointError"
        and "w' = record_call (Call_scroll (doc_filter doc_id user_id)) w1"
        by (simp_all add: client_scroll_def Let_def)
      then show ?thesis
        using c1 l1 sp by auto
    next
      case (Some c)
      then have pts: "c_points c = stored_points w"
        using sp by (simp add: stored_points_def)
      show ?thesis
      proof (cases "client_raises e Op_scroll")
        case True
        with res Some have "r = Raise PointError"
          and "w' = record_call (Call_scroll (doc_filter doc_id user_id)) w1"
          by (simp_all add: client_scroll_def Let_def)
        then show ?thesis
          using c1 l1 sp by auto
      next
        case False
        with res Some pts have
          "r = Return (map pt_payload
                 (take 1000 (filter (matches (doc_filter doc_id user_id)) (stored_points w))))"
          and "w' = record_call (Call_scroll (doc_filter doc_id user_id)) w1"
          by (simp_all add: client_scroll_def Let_def)
        then show ?thesis
          using c1 l1 sp rd True by auto
      qed
    qed
  qed
qed

lemma delete_points_by_doc_id_spec:
  assumes "delete_points_by_doc_id e doc_id user_id w = (r, w')"
  shows "(\<exists>cs. calls w' = calls w @ cs \<and>
              list_all (\<lambda>c. setup_call c \<or> c = Call_delete (doc_filter doc_id user_id)) cs) \<and>
         ((r = Raise VectorCollectionError \<or> r = Raise PointError) \<and>
            stored_points w' = stored_points w \<or>
          r = Return () \<and>
            stored_points w' =
              filter (\<lambda>p. \<not> matches (doc_filter doc_id user_id) p) (stored_points w))"
proof -
  let ?F = "doc_filter doc_id user_id"
  let ?P = "\<lambda>c. setup_call c \<or> c = Call_delete ?F"
  obtain r1 w1 where en: "ensure_collection_exists e w = (r1, w1)"
    by (cases "ensure_collection_exists e w") blast
  from ensure_collection_exists_spec [OF en] obtain cs where
    cs: "calls w1 = calls w @ cs" "list_all setup_call cs"
    and sp: "stored_points w1 = stored_points w"
    and r1: "r1 = Return () \<or> r1 = Raise VectorCollectionError"
    by blast
  have l: "list_all ?P cs"
    using cs(2) by (simp add: list_all_iff)
  show ?thesis
  proof (cases "r1 = Return ()")
    case False
    with r1 assms en have "r = Raise VectorCollectionError" and "w' = w1"
      by (auto simp: delete_points_by_doc_id_def)
    then show ?thesis
      using cs(1) l sp by auto
  next
    case True
    obtain r2 w2 where en2: "ensure_collection_exists e w1 = (r2, w2)"
      by (cases "ensure_collection_exists e w1") blast
    from ensure_collection_exists_spec [OF en2] obtain cs2 where
      cs2: "calls w2 = calls w1 @ cs2" "list_all setup_call cs2"
      and sp2: "stored_points w2 = stored_points w1"
      and r2: "r2 = Return () \<or> r2 = Raise VectorCollectionError"
      by blast
    have l2: "list_all ?P (cs @ cs2)"
      using l cs2(2) by (auto simp: list_all_iff)
    have c2: "calls w2 = calls w @ (cs @ cs2)"
      using cs(1) cs2(1) by simp
    show ?thesis
    proof (cases "r2 = Return ()")
      case False
      with r2 assms en en2 True have "r = Raise PointError" and "w' = w2"
        by (auto simp: delete_points_by_doc_id_def delete_points_def)
      then show ?thesis
        using c2 l2 sp sp2 by auto
    next
      case r2ok: True
      have res: "(r, w') = try_except (try_except (client_delete e ?F w2) (\<lambda>_. PointError))
                   (\<lambda>_. PointError)"
        using assms en en2 True r2ok
        by (simp add: delete_points_by_doc_id_def delete_points_def)
      have c3: "calls (record_call (Call_delete ?F) w2) = calls w @ (cs @ cs2 @ [Call_delete ?F])"
        using c2 by simp
      have l3: "list_all ?P (cs @ cs2 @ [Call_delete ?F])"
        using l2 by simp
      show ?thesis
      proof (cases "qdrant w2")
        case None
        with res have "r = Raise PointError" and "w' = record_call (Call_delete ?F) w2"
          by (simp_all add: client_delete_def Let_def)
        then show ?thesis
          using c3 l3 sp sp2 by auto
      next
        case (Some c)
        then have pts: "c_points c = stored_points w"
          using sp sp2 by (simp add: stored_points_def)
        show ?thesis
        proof (cases "client_raises e Op_delete")
          case True
          with res Some have "r = Raise PointError" and "w' = record_call (Call_delete ?F) w2"
            by (simp_all add: client_delete_def Let_def)
          then show ?thesis
            using c3 l3 sp sp2 by auto
        next
          case False
          with res Some have "r = Return ()"
            and w': "w' = record_call (Call_delete ?F) w2
               \<lparr>qdrant := Some (c\<lparr>c_points := filter (\<lambda>p. \<not> matches ?F p) (c_points c)\<rparr>)\<rparr>"
            by (simp_all add: client_delete_def Let_def)
          moreover have "calls w' = calls w @ (cs @ cs2 @ [Call_delete ?F])"
            using w' c2 by simp
          moreover have "stored_points w' = filter (\<lambda>p. \<not> matches ?F p) (stored_points w)"
            using w' pts by simp
          ultimately show ?thesis
            using l3 by blast
        qed
      qed
    qed
  qed
qed

lemma save_points_spec:
  assumes "save_points e points w = (r, w')"
  shows "(\<exists>cs. calls w' = calls w @ cs \<and>
              list_all (\<lambda>c. setup_call c \<or> c = Call_upsert points) cs) \<and>
         ((r = Raise VectorCollectionError \<or> r = Raise PointError) \<and>
            stored_points w' = stored_points w \<or>
          r = Return () \<and>
            (\<exists>c. qdrant w' = Some c \<and>
                 c_points c = foldl upsert_point (stored_points w) points \<and>
                 (qdrant w = None \<and> \<not> collection_ready w \<longrightarrow> c_size c = VECTOR_SIZE e) \<and>
                 (\<forall>c0. qdrant w = Some c0 \<longrightarrow> c_size c = c_size c0)) \<and>
            (\<exists>cs. calls w' = calls w @ cs @ [Call_upsert points]))"
proof -
  let ?P = "\<lambda>c. setup_call c \<or> c = Call_upsert points"
  obtain r1 w1 where en: "ensure_collection_exists e w = (r1, w1)"
    by (cases "ensure_collection_exists e w") blast
  from ensure_collection_exists_spec [OF en] obtain cs where
    cs: "calls w1 = calls w @ cs" "list_all setup_call cs"
    and sp: "stored_points w1 = stored_points w"
    and r1: "r1 = Return () \<or> r1 = Raise VectorCollectionError"
    and q1: "r1 = Return () \<longrightarrow> qdrant w1 = qdrant w \<or>
             (qdrant w = None \<and> \<not> collection_ready w \<and>
              qdrant w1 = Some \<lparr>c_size = VECTOR_SIZE e, c_points = []\<rparr>)"
    by blast
  have l: "list_all ?P cs"
    using cs(2) by (simp add: list_all_iff)
  show ?thesis
  proof (cases "r1 = Return ()")
    case False
    with r1 assms en have "r = Raise VectorCollectionError" and "w' = w1"
      by (auto simp: save_points_def)
    then show ?thesis
      using cs(1) l sp by auto
  next
    case True
    then have res: "(r, w') = try_except (client_upsert e points w1) (\<lambda>_. PointError)"
      using assms en by (simp add: save_points_def)
    have c1: "calls (record_call (Call_upsert points) w1) = calls w @ (cs @ [Call_upsert points])"
      using cs(1) by simp
    have l1: "list_all ?P (cs @ [Call_upsert points])"
      using l by simp
    show ?thesis
    proof (cases "qdrant w1")
      case None
      with res have "r = Raise PointError" and "w' = record_call (Call_upsert points) w1"
        by (simp_all add: client_upsert_def Let_def)
      then show ?thesis
        using c1 l1 sp by auto
    next
      case (Some c)
      then have pts: "c_points c = stored_points w"
        using sp by (simp add: stored_points_def)
      have sz: "(qdrant w = None \<and> \<not> collection_ready w \<longrightarrow> c_size c = VECTOR_SIZE e) \<and>
                (\<forall>c0. qdrant w = Some c0 \<longrightarrow> c_size c = c_size c0)"
        using q1 True Some by auto
      show ?thesis
      proof (cases "client_raises e Op_upsert")
        case True
        with res Some have "r = Raise PointError" and "w' = record_call (Call_upsert points) w1"
          by (simp_all add: client_upsert_def Let_def)
        then show ?thesis
          using c1 l1 sp by auto
      next
        case False
        from False res Some have r: "r = Return ()"
          and w': "w' = record_call (Call_upsert points) w1
             \<lparr>qdrant := Some (c\<lparr>c_points := foldl upsert_point (c_points c) points\<rparr>)\<rparr>"
          by (simp_all add: client_upsert_def Let_def)
        have a: "calls w' = calls w @ (cs @ [Call_upsert points])"
          using w' cs(1) by simp
        have b: "qdrant w' = Some (c\<lparr>c_points := foldl upsert_point (c_points c) points\<rparr>)"
          using w' by simp
        have "\<exists>c'. qdrant w' = Some c' \<and>
                 c_points c' = foldl upsert_point (stored_points w) points \<and>
                 (qdrant w = None \<and> \<not> collection_ready w \<longrightarrow> c_size c' = VECTOR_SIZE e) \<and>
                 (\<forall>c0. qdrant w = Some c0 \<longrightarrow> c_size c' = c_size c0)"
          using b pts sz by simp
        moreover have "\<exists>cs. calls w' = calls w @ cs @ [Call_upsert points]"
          using a by blast
        moreover have "\<exists>cs. calls w' = calls w @ cs \<and> list_all ?P cs"
          using a l1 by blast
        ultimately show ?thesis
          using r by blast
      qed
    qed
  qed
qed

lemma search_spec:
  assumes "search e qv top_k flt w = (r, w')"
  shows "(\<exists>cs. calls w' = calls w @ cs \<and>
              list_all (\<lambda>c. setup_call c \<or> c = Call_query_points flt top_k) cs) \<and>
         stored_points w' = stored_points w \<and>
         (r = Raise VectorCollectionError \<or> r = Raise PointError \<or>
          (\<exists>res. r = Return res \<and>
             (\<forall>h\<in>set res. \<exists>pt\<in>set (stored_points w). matches flt pt \<and> snd h = pt_payload pt)))"
proof -
  let ?P = "\<lambda>c. setup_call c \<or> c = Call_query_points flt top_k"
  obtain r1 w1 where en: "ensure_collection_exists e w = (r1, w1)"
    by (cases "ensure_collection_exists e w") blast
  from ensure_collection_exists_spec [OF en] obtain cs where
    cs: "calls w1 = calls w @ cs" "list_all setup_call cs"
    and sp: "stored_points w1 = stored_points w"
    and r1: "r1 = Return () \<or> r1 = Raise VectorCollectionError"
    by blast
  have l: "list_all ?P cs"
    using cs(2) by (simp add: list_all_iff)
  show ?thesis
  proof (cases "r1 = Return ()")
    case False
    with r1 assms en have "r = Raise VectorCollectionError" and "w' = w1"
      by (auto simp: search_def)
    then show ?thesis
      using cs(1) l sp by auto
  next
    case True
    then have res: "(r, w') = try_except (client_query_points e qv flt top_k w1) (\<lambda>_. PointError)"
      using assms en by (simp add: search_def)
    have c1: "calls (record_call (Call_query_points flt top_k) w1) =
        calls w @ (cs @ [Call_query_points flt top_k])"
      using cs(1) by simp
    have l1: "list_all ?P (cs @ [Call_query_points flt top_k])"
      using l by simp
    show ?thesis
    proof (cases "qdrant w1")
      case None
      with res have "r = Raise PointError" and "w' = record_call (Call_query_points flt top_k) w1"
        by (simp_all add: client_query_points_def Let_def)
      then show ?thesis
        using c1 l1 sp by auto
    next
      case (Some c)
      then have pts: "c_points c = stored_points w"
        using sp by (simp add: stored_points_def)
      show ?thesis
      proof (cases "client_raises e Op_query_points")
        case True
        with res Some have "r = Raise PointError"
          and "w' = record_call (Call_query_points flt top_k) w1"
          by (simp_all add: client_query_points_def Let_def)
        then show ?thesis
          using c1 l1 sp by auto
      next
        case False
        let ?res = "take (nat top_k)
                     (rev (sort_key fst
                        (map (\<lambda>p. (similarity e qv (pt_vector p), pt_payload p))
                           (filter (matches flt) (stored_points w)))))"
        from False res Some pts have r: "r = Return ?res"
          and w': "w' = record_call (Call_query_points flt top_k) w1"
          by (simp_all add: client_query_points_def Let_def)
        have "set ?res \<subseteq> (\<lambda>p. (similarity e qv (pt_vector p), pt_payload p)) `
                 {p \<in> set (stored_points w). matches flt p}"
          using set_take_subset [of "nat top_k"] by fastforce
        then have "\<forall>h\<in>set ?res. \<exists>pt\<in>set (stored_points w). matches flt pt \<and> snd h = pt_payload pt"
          by fastforce
        then show ?thesis
          using r w' c1 l1 sp by auto
      qed
    qed
  qed
qed

section \<open>The calls and effects of the service\<close>

lemma matches_doc_filter:
  "user_id \<noteq> [] \<Longrightarrow>
   matches (doc_filter doc_id (Some user_id)) pt \<longleftrightarrow>
     p_doc_id (pt_payload pt) = doc_id \<and> p_user_id (pt_payload pt) = user_id"
  by (simp add: matches_def doc_filter_def)

lemma setup_not_delete: "setup_call c \<Longrightarrow> \<not> is_delete_call c"
  by (cases c) simp_all

lemma delete_scoped:
  assumes u: "user_id \<noteq> []"
    and d: "delete_user_document e doc_id user_id w = (r, w')"
  shows "(\<forall>flt. Call_delete flt \<in> set (new_calls w w') \<or> Call_scroll flt \<in> set (new_calls w w')
            \<longrightarrow> (Key_user_id, user_id) \<in> set flt) \<and>
         (\<forall>pt\<in>set (stored_points w).
            p_user_id (pt_payload pt) \<noteq> user_id \<longrightarrow> pt \<in> set (stored_points w')) \<and>
         set (stored_points w') \<subseteq> set (stored_points w)"
proof -
  let ?F = "doc_filter doc_id (Some user_id)"
  have F: "(Key_user_id, user_id) \<in> set ?F"
    using u by (simp add: doc_filter_def)
  obtain r1 w1 where g: "get_points_by_doc_id e doc_id (Some user_id) w = (r1, w1)"
    by (cases "get_points_by_doc_id e doc_id (Some user_id) w") blast
  from get_points_by_doc_id_spec [OF g] obtain cs where
    cs: "calls w1 = calls w @ cs" "list_all (\<lambda>c. setup_call c \<or> c = Call_scroll ?F) cs"
    and sp: "stored_points w1 = stored_points w"
    by blast
  have scs: "\<forall>flt. Call_delete flt \<in> set cs \<or> Call_scroll flt \<in> set cs
               \<longrightarrow> (Key_user_id, user_id) \<in> set flt"
    using cs(2) F by (auto simp: list_all_iff)
  show ?thesis
  proof (cases "\<exists>chunks. r1 = Return chunks \<and> chunks \<noteq> []")
    case False
    then have "w' = w1"
      using d g by (cases r1) (auto simp: delete_user_document_def split: if_splits)
    then show ?thesis
      using new_calls_append [OF cs(1)] scs sp by simp
  next
    case True
    then obtain r2 w2 where dl: "delete_points_by_doc_id e doc_id (Some user_id) w1 = (r2, w2)"
      and w2: "w' = w2"
      using d g
      by (cases "delete_points_by_doc_id e doc_id (Some user_id) w1";
          cases "fst (delete_points_by_doc_id e doc_id (Some user_id) w1)")
        (auto simp: delete_user_document_def)
    from delete_points_by_doc_id_spec [OF dl] obtain cs2 where
      cs2: "calls w2 = calls w1 @ cs2" "list_all (\<lambda>c. setup_call c \<or> c = Call_delete ?F) cs2"
      and sp2: "stored_points w2 = stored_points w1 \<or>
                stored_points w2 = filter (\<lambda>p. \<not> matches ?F p) (stored_points w1)"
      by blast
    have "calls w' = calls w @ (cs @ cs2)"
      using cs(1) cs2(1) w2 by simp
    then have n: "new_calls w w' = cs @ cs2"
      by (rule new_calls_append)
    have scs2: "\<forall>flt. Call_delete flt \<in> set cs2 \<or> Call_scroll flt \<in> set cs2
               \<longrightarrow> (Key_user_id, user_id) \<in> set flt"
      using cs2(2) F by (auto simp: list_all_iff)
    have a: "\<forall>flt. Call_delete flt \<in> set (new_calls w w') \<or> Call_scroll flt \<in> set (new_calls w w')
            \<longrightarrow> (Key_user_id, user_id) \<in> set flt"
      using n scs scs2 by auto
    have b: "\<forall>pt\<in>set (stored_points w).
            p_user_id (pt_payload pt) \<noteq> user_id \<longrightarrow> pt \<in> set (stored_points w')"
      using sp sp2 w2 by (auto simp: matches_doc_filter [OF u])
    have c: "set (stored_points w') \<subseteq> set (stored_points w)"
      using sp sp2 w2 by auto
    show ?thesis
      using a b c by blast
  qed
qed

lemma process_document_spec:
  assumes "process_document e fname bytes w = (r, w')"
  shows "(\<exists>cs. calls w' = calls w @ cs \<and> list_all pipeline_call cs \<and>
            (\<forall>chunks_data. r = Return chunks_data \<longrightarrow>
               (\<exists>texts embeddings. encode_batch e texts = Some embeddings \<and>
                  chunks_data = zip texts embeddings \<and> Call_embed_batch texts \<in> set cs))) \<and>
         qdrant w' = qdrant w \<and> collection_ready w' = collection_ready w"
proof (cases "temp_file_fails e")
  case True
  with assms show ?thesis
    by (auto simp: process_document_def)
next
  case tf: False
  let ?w2 = "record_call Call_load_document (record_call Call_file_read w)"
  let ?path = "temp_stem e @ snd (splitext fname)"
  have c2: "calls ?w2 = calls w @ [Call_file_read, Call_load_document]"
    by simp
  show ?thesis
  proof (cases "load_document e ?path bytes")
    case (Raise x)
    with assms tf have "w' = ?w2" and "\<forall>cd. r \<noteq> Return cd"
      by (auto simp: process_document_def Let_def)
    then show ?thesis
      using c2 by auto
  next
    case Diverge
    with assms tf have "w' = ?w2" and "\<forall>cd. r \<noteq> Return cd"
      by (auto simp: process_document_def Let_def)
    then show ?thesis
      using c2 by auto
  next
    case (Return doc_text)
    show ?thesis
    proof (cases "py_strip doc_text = []")
      case True
      with assms tf Return have "w' = ?w2" and "\<forall>cd. r \<noteq> Return cd"
        by (auto simp: process_document_def Let_def)
      then show ?thesis
        using c2 by auto
    next
      case ne: False
      show ?thesis
      proof (cases "chunker doc_text (CHUNK_SIZE e) (OVERLAP e)")
        case None
        with assms tf Return ne have "w' = ?w2" and "\<forall>cd. r \<noteq> Return cd"
          by (auto simp: process_document_def Let_def)
        then show ?thesis
          using c2 by auto
      next
        case (Some chunks)
        let ?texts = "filter (\<lambda>chunk. py_strip chunk \<noteq> []) chunks"
        show ?thesis
        proof (cases "chunks = [] \<or> ?texts = []")
          case True
          with assms tf Return ne Some have "w' = ?w2" and "\<forall>cd. r \<noteq> Return cd"
            by (auto simp: process_document_def Let_def split: if_splits)
          then show ?thesis
            using c2 by auto
        next
          case False
          let ?w4 = "record_call (Call_embed_batch ?texts) ?w2"
          have c4: "calls ?w4 = calls w @ [Call_file_read, Call_load_document, Call_embed_batch ?texts]"
            by simp
          from False assms tf Return ne Some have w': "w' = ?w4"
            and r: "\<forall>cd. r = Return cd \<longrightarrow>
                      (\<exists>embeddings. encode_batch e ?texts = Some embeddings \<and>
                         cd = zip ?texts embeddings)"
            by (auto simp: process_document_def Let_def split: option.splits if_splits)
          let ?cs = "[Call_file_read, Call_load_document, Call_embed_batch ?texts]"
          have "calls w' = calls w @ ?cs \<and> list_all pipeline_call ?cs \<and>
            (\<forall>cd. r = Return cd \<longrightarrow>
               (\<exists>texts embeddings. encode_batch e texts = Some embeddings \<and>
                  cd = zip texts embeddings \<and> Call_embed_batch texts \<in> set ?cs))"
            using w' r c4 by auto
          then have "\<exists>cs. calls w' = calls w @ cs \<and> list_all pipeline_call cs \<and>
            (\<forall>cd. r = Return cd \<longrightarrow>
               (\<exists>texts embeddings. encode_batch e texts = Some embeddings \<and>
                  cd = zip texts embeddings \<and> Call_embed_batch texts \<in> set cs))"
            by (rule exI)
          then show ?thesis
            using w' by simp
        qed
      qed
    qed
  qed
qed


lemma pipeline_not_upsert: "pipeline_call c \<Longrightarrow> c \<noteq> Call_upsert points"
  by (cases c) simp_all

lemma setup_not_upsert: "setup_call c \<Longrightarrow> c \<noteq> Call_upsert points"
  by (cases c) simp_all

lemma length_points_of_upload [simp]:
  "length (points_of_upload e user_id fname cd) = length cd"
  by (simp add: points_of_upload_def)

lemma nth_points_of_upload:
  assumes "i < length cd"
  shows "points_of_upload e user_id fname cd ! i =
     make_point e (uuid4 e) user_id fname (py_lower (snd (splitext fname)))
       \<lparr>dm_doc_id = uuid4 e, dm_user_id = user_id, dm_filename = fname,
        dm_file_type = py_lower (snd (splitext fname)),
        dm_chunks_count = length cd, dm_created_at = utc_now e\<rparr> (i, cd ! i)"
  using assms by (simp add: points_of_upload_def nth_enumerate_eq)

lemma payload_points_of_upload:
  assumes "i < length cd"
  shows "p_user_id (pt_payload (points_of_upload e user_id fname cd ! i)) = user_id \<and>
         p_doc_id (pt_payload (points_of_upload e user_id fname cd ! i)) = uuid4 e \<and>
         p_chunk_index (pt_payload (points_of_upload e user_id fname cd ! i)) = Some (int i) \<and>
         p_doc_metadata (pt_payload (points_of_upload e user_id fname cd ! i)) =
           Some \<lparr>dm_doc_id = uuid4 e, dm_user_id = user_id, dm_filename = fname,
                 dm_file_type = py_lower (snd (splitext fname)),
                 dm_chunks_count = length cd, dm_created_at = utc_now e\<rparr>"
  by (simp add: nth_points_of_upload [OF assms] make_point_def split: prod.splits)

lemma vectors_points_of_upload:
  "map pt_vector (points_of_upload e user_id fname cd) = map snd cd"
proof (rule nth_equalityI)
  show "length (map pt_vector (points_of_upload e user_id fname cd)) = length (map snd cd)"
    by simp
next
  fix i assume "i < length (map pt_vector (points_of_upload e user_id fname cd))"
  then have i: "i < length cd"
    by simp
  then show "map pt_vector (points_of_upload e user_id fname cd) ! i = map snd cd ! i"
    by (simp add: nth_points_of_upload [OF i] make_point_def split: prod.splits)
qed


lemma authenticated_user_not_empty:
  assumes "get_current_user_bearer a credentials = Inr (user_id, email)"
  shows "user_id \<noteq> []"
  using assms
  by (auto simp: get_current_user_bearer_def split: sum.splits prod.splits option.splits
      if_splits)

lemma upload_document_cases:
  assumes up: "upload_document e file user_id w = (r, w')"
  shows "(r = Raise FileTypeError \<and> w' = w) \<or>
         (\<exists>fname r1. filename file = Some fname \<and>
            process_document e fname (content file) w = (r1, w') \<and>
            (\<forall>cd. r1 \<noteq> Return cd) \<and> (\<forall>x. r \<noteq> Return x)) \<or>
         (\<exists>fname cd w1 r2. filename file = Some fname \<and>
            process_document e fname (content file) w = (Return cd, w1) \<and>
            save_points e (points_of_upload e user_id fname cd) w1 = (r2, w') \<and>
            (\<forall>x. r = Return x \<longrightarrow>
               r2 = Return () \<and>
               x = \<lparr>ur_doc_id = uuid4 e, ur_filename = fname,
                    ur_file_type = py_lower (snd (splitext fname)),
                    ur_chunks_count = length cd\<rparr>))"
proof (cases "filename file")
  case None
  with up show ?thesis
    by (simp add: upload_document_def)
next
  case (Some fname)
  show ?thesis
  proof (cases "fname = [] \<or>
      py_lower (snd (splitext fname)) \<notin> set [str ''.txt'', str ''.pdf'', str ''.docx'']")
    case True
    then have "upload_document e file user_id w = (Raise FileTypeError, w)"
      using Some by (auto simp: upload_document_def Let_def)
    with up show ?thesis
      by simp
  next
    case ok: False
    obtain r1 w1 where p: "process_document e fname (content file) w = (r1, w1)"
      by (cases "process_document e fname (content file) w") blast
    show ?thesis
    proof (cases "\<exists>cd. r1 = Return cd")
      case False
      then have "w' = w1" and "\<forall>x. r \<noteq> Return x"
        using up Some ok p by (cases r1; auto simp: upload_document_def Let_def)+
      with Some p False show ?thesis
        by auto
    next
      case True
      then obtain cd where cd: "r1 = Return cd"
        by blast
      obtain r2 w2 where s: "save_points e (points_of_upload e user_id fname cd) w1 = (r2, w2)"
        by (cases "save_points e (points_of_upload e user_id fname cd) w1") blast
      have "w' = w2 \<and> (\<forall>x. r = Return x \<longrightarrow>
               r2 = Return () \<and>
               x = \<lparr>ur_doc_id = uuid4 e, ur_filename = fname,
                    ur_file_type = py_lower (snd (splitext fname)),
                    ur_chunks_count = length cd\<rparr>)"
        using up Some ok p cd s
        by (cases r2) (auto simp: upload_document_def Let_def points_of_upload_def)
      with Some p cd s show ?thesis
        by auto
    qed
  qed
qed

lemma upload_upserts:
  assumes up: "upload_document e file user_id w = (r, w')"
  shows "(\<forall>pts. Call_upsert pts \<in> set (new_calls w w') \<longrightarrow>
            (\<exists>fname cd. filename file = Some fname \<and> pts = points_of_upload e user_id fname cd)) \<and>
         (\<forall>x. r = Return x \<longrightarrow>
            ur_doc_id x = uuid4 e \<and>
            (\<exists>pts. Call_upsert pts \<in> set (new_calls w w') \<and> length pts = ur_chunks_count x))"
  using upload_document_cases [OF up]
proof (elim disjE exE conjE, goal_cases)
  case 1
  then show ?case
    by (simp add: new_calls_def)
next
  case (2 fname r1)
  from process_document_spec [OF 2(2)] obtain cs where
    cs: "calls w' = calls w @ cs" "list_all pipeline_call cs"
    by blast
  have "\<forall>pts. Call_upsert pts \<notin> set cs"
    using cs(2) pipeline_not_upsert by (fastforce simp: list_all_iff)
  then show ?case
    using 2(4) new_calls_append [OF cs(1)] by simp
next
  case (3 fname cd w1 r2)
  let ?pts = "points_of_upload e user_id fname cd"
  from process_document_spec [OF 3(2)] obtain cs where
    cs: "calls w1 = calls w @ cs" "list_all pipeline_call cs"
    by blast
  from save_points_spec [OF 3(3)] obtain cs2 where
    cs2: "calls w' = calls w1 @ cs2" "list_all (\<lambda>c. setup_call c \<or> c = Call_upsert ?pts) cs2"
    and ok: "r2 = Return () \<longrightarrow> (\<exists>cs. calls w' = calls w1 @ cs @ [Call_upsert ?pts])"
    by blast
  have n: "new_calls w w' = cs @ cs2"
    using cs(1) cs2(1) by (intro new_calls_append) simp
  have a: "\<forall>pts. Call_upsert pts \<in> set cs \<union> set cs2 \<longrightarrow> pts = ?pts"
    using cs(2) cs2(2) pipeline_not_upsert setup_not_upsert
    by (fastforce simp: list_all_iff)
  have b: "r2 = Return () \<longrightarrow> Call_upsert ?pts \<in> set cs2"
    using ok cs2(1) by auto
  have A: "\<forall>pts. Call_upsert pts \<in> set (new_calls w w') \<longrightarrow>
            (\<exists>fname cd. filename file = Some fname \<and> pts = points_of_upload e user_id fname cd)"
    using a n 3(1) by auto
  have B: "\<forall>x. r = Return x \<longrightarrow>
            ur_doc_id x = uuid4 e \<and>
            (\<exists>pts. Call_upsert pts \<in> set (new_calls w w') \<and> length pts = ur_chunks_count x)"
  proof (intro allI impI)
    fix x assume "r = Return x"
    with 3(4) have r2: "r2 = Return ()"
      and x: "x = \<lparr>ur_doc_id = uuid4 e, ur_filename = fname,
                    ur_file_type = py_lower (snd (splitext fname)),
                    ur_chunks_count = length cd\<rparr>"
      by blast+
    have "Call_upsert ?pts \<in> set (new_calls w w')"
      using b r2 n by simp
    moreover have "length ?pts = ur_chunks_count x" and "ur_doc_id x = uuid4 e"
      using x by simp_all
    ultimately show "ur_doc_id x = uuid4 e \<and>
            (\<exists>pts. Call_upsert pts \<in> set (new_calls w w') \<and> length pts = ur_chunks_count x)"
      by blast
  qed
  show ?case
    using A B by (rule conjI)
qed

lemma search_scoped:
  assumes s: "search_user_documents e query top_k user_id w = (r, w')"
  shows "(\<forall>flt k. Call_query_points flt k \<in> set (new_calls w w') \<longrightarrow>
            (Key_user_id, user_id) \<in> set flt) \<and>
         stored_points w' = stored_points w \<and>
         (\<forall>hits. r = Return hits \<longrightarrow>
            (\<forall>h\<in>set hits. \<exists>pt\<in>set (stored_points w).
               p_user_id (pt_payload pt) = user_id \<and>
               sh_doc_id h = p_doc_id (pt_payload pt) \<and>
               sh_chunk_text h = p_chunk_text (pt_payload pt)))"
proof (cases "py_strip query = []")
  case True
  with s show ?thesis
    by (auto simp: search_user_documents_def new_calls_def)
next
  case nb: False
  let ?w1 = "record_call (Call_embed query) w"
  show ?thesis
  proof (cases "encode e query")
    case None
    with s nb have "w' = ?w1" and "\<forall>hits. r \<noteq> Return hits"
      by (auto simp: search_user_documents_def Let_def)
    then show ?thesis
      by (auto simp: new_calls_def)
  next
    case (Some qv)
    let ?F = "[(Key_user_id, user_id)]"
    obtain r1 w2 where se: "search e qv top_k ?F ?w1 = (r1, w2)"
      by (cases "search e qv top_k ?F ?w1") blast
    from search_spec [OF se] obtain cs where
      cs: "calls w2 = calls ?w1 @ cs"
        "list_all (\<lambda>c. setup_call c \<or> c = Call_query_points ?F top_k) cs"
      and sp: "stored_points w2 = stored_points w"
      and r1: "r1 = Raise VectorCollectionError \<or> r1 = Raise PointError \<or>
          (\<exists>res. r1 = Return res \<and>
             (\<forall>h\<in>set res. \<exists>pt\<in>set (stored_points ?w1). matches ?F pt \<and> snd h = pt_payload pt))"
      by auto
    have w': "w' = w2"
      using s nb Some se r1 by (auto simp: search_user_documents_def Let_def split: if_splits)
    have "calls w' = calls w @ (Call_embed query # cs)"
      using cs(1) w' by simp
    then have n: "new_calls w w' = Call_embed query # cs"
      by (rule new_calls_append)
    have q: "\<forall>flt k. Call_query_points flt k \<in> set (Call_embed query # cs) \<longrightarrow>
               (Key_user_id, user_id) \<in> set flt"
      using cs(2) by (auto simp: list_all_iff)
    have h: "\<forall>hits. r = Return hits \<longrightarrow>
            (\<forall>h\<in>set hits. \<exists>pt\<in>set (stored_points w).
               p_user_id (pt_payload pt) = user_id \<and>
               sh_doc_id h = p_doc_id (pt_payload pt) \<and>
               sh_chunk_text h = p_chunk_text (pt_payload pt))"
    proof (intro allI impI ballI)
      fix hits h assume r: "r = Return hits" and hh: "h \<in> set hits"
      then obtain res where res: "r1 = Return res"
        and hits: "hits = map (\<lambda>r.
                                  \<lparr>sh_doc_id = p_doc_id (snd r),
                                   sh_filename =
                                     (case p_filename (snd r) of
                                        Some f \<Rightarrow> f | None \<Rightarrow> str ''Unknown''),
                                   sh_chunk_text = p_chunk_text (snd r),
                                   sh_score = fst r,
                                   sh_chunk_index = the (p_chunk_index (snd r))\<rparr>) res"
        using s nb Some se r1
        by (auto simp: search_user_documents_def Let_def split: if_splits)
      from hits hh obtain x where x: "x \<in> set res"
        and hx: "sh_doc_id h = p_doc_id (snd x)" "sh_chunk_text h = p_chunk_text (snd x)"
        by auto
      from r1 res x obtain pt where "pt \<in> set (stored_points w)" "matches ?F pt"
        "snd x = pt_payload pt"
        by auto
      then show "\<exists>pt\<in>set (stored_points w).
               p_user_id (pt_payload pt) = user_id \<and>
               sh_doc_id h = p_doc_id (pt_payload pt) \<and>
               sh_chunk_text h = p_chunk_text (pt_payload pt)"
        using hx by (auto simp: matches_def)
    qed
    show ?thesis
      using n q sp w' h by simp
  qed
qed

section \<open>Runs of the service in the concrete environment\<close>

lemmas text_defs =
  splitext_def rfind_def py_slice_def py_lower_def py_strip_def py_isspace_def
  clean_text_def py_replace_char_def py_split.simps chunker_def chunker_loop.simps

lemma str_eq_iff [simp]: "str a = str b \<longleftrightarrow> a = b"
proof -
  have "inj (of_char :: char \<Rightarrow> nat)"
    by (rule injI) simp
  then show ?thesis
    by (simp add: str_def inj_map_eq_map)
qed

lemma str_Nil_iff [simp]: "str a = [] \<longleftrightarrow> a = []"
  by (simp add: str_def)

lemma ext_example: "py_lower (snd (splitext (str ''a.txt''))) = str ''.txt''"
  by (simp add: str_def splitext_def rfind_def py_slice_def py_lower_def Let_def)

lemma process_example:
  "process_document example_env (str ''a.txt'') (str ''one two three four'') w =
     (Return [(str ''one two three'', [1, 0]), (str ''three four'', [1, 0])],
      record_call (Call_embed_batch [str ''one two three'', str ''three four''])
        (record_call Call_load_document (record_call Call_file_read w)))"
  by (simp add: process_document_def load_document_def extract_from_txt_def example_env_def
      str_def text_defs Let_def)


lemma upload_example:
  "fst (upload_document example_env example_file (str ''u1'') fresh_world) =
     Return \<lparr>ur_doc_id = str ''doc-1'', ur_filename = str ''a.txt'', ur_file_type = str ''.txt'',
             ur_chunks_count = 2\<rparr> \<and>
   map (\<lambda>p. (p_user_id (pt_payload p), p_doc_id (pt_payload p), p_chunk_index (pt_payload p)))
     (stored_points (snd (upload_document example_env example_file (str ''u1'') fresh_world))) =
     [(str ''u1'', str ''doc-1'', Some 0), (str ''u1'', str ''doc-1'', Some 1)]"
  by (simp add: upload_document_def example_file_def ext_example process_example Let_def)
     (simp add: repository_defs Let_def make_point_def enumerate_eq_zip
      example_env_def fresh_world_def)



lemma delete_other_user_example:
  "delete_user_document example_env (str ''d1'') (str ''u1'')
     (stored_world [example_point (str ''d1'') (str ''u2'') 0]) =
   (Raise DocumentNotFoundError,
    snd (delete_user_document example_env (str ''d1'') (str ''u1'')
     (stored_world [example_point (str ''d1'') (str ''u2'') 0])))"
  by (simp add: prod_eq_iff delete_user_document_def repository_defs example_env_def
      stored_world_def example_point_def Let_def)

lemma delete_own_example:
  "stored_points (snd (delete_user_document example_env (str ''d1'') (str ''u1'')
      (stored_world [example_point (str ''d1'') (str ''u1'') 0,
                     example_point (str ''d1'') (str ''u2'') 0]))) =
     [example_point (str ''d1'') (str ''u2'') 0]"
  by (simp add: delete_user_document_def repository_defs example_env_def stored_world_def
      example_point_def stored_points_def Let_def)

lemma authenticated_example:
  "u \<noteq> [] \<Longrightarrow> get_current_user_bearer example_auth u = Inr (u, None)"
  by (simp add: get_current_user_bearer_def decode_access_token_def example_auth_def)

section \<open>Deleting a document that is not the user's\<close>

text \<open>
  Claim C6, as the code has it. The user is the one that authentication returned. When
  no stored chunk has both the document id and the user's id, \<^verbatim>\<open>delete_user_document\<close>
  issues no deletion and leaves the stored points as they were. When the lookup in the
  store returns, the service raises \<open>DocumentNotFoundError\<close> and the endpoint answers
  404; when the collection check or the lookup fails, the service raises that
  \<open>VectorCollectionError\<close> or \<open>PointError\<close> and the endpoint answers 500.
\<close>

theorem delete_unowned_not_found:
  assumes au: "get_current_user_bearer a credentials = Inr (user_id, email)"
    and nm: "\<forall>pt\<in>set (stored_points w).
               \<not> (p_doc_id (pt_payload pt) = doc_id \<and> p_user_id (pt_payload pt) = user_id)"
  shows "\<exists>r1 w'. get_points_by_doc_id e doc_id (Some user_id) w = (r1, w') \<and>
           ((\<exists>chunks. r1 = Return chunks) \<and>
              delete_user_document e doc_id user_id w = (Raise DocumentNotFoundError, w') \<and>
              delete_document_endpoint e doc_id user_id w = (Some 404, w')
            \<or> (\<exists>y. r1 = Raise y \<and> (y = VectorCollectionError \<or> y = PointError) \<and>
              delete_user_document e doc_id user_id w = (Raise y, w') \<and>
              delete_document_endpoint e doc_id user_id w = (Some 500, w'))) \<and>
           \<not> list_ex is_delete_call (new_calls w w') \<and>
           stored_points w' = stored_points w"
proof -
  let ?F = "doc_filter doc_id (Some user_id)"
  have u: "user_id \<noteq> []"
    using au by (rule authenticated_user_not_empty)
  obtain r1 w1 where g: "get_points_by_doc_id e doc_id (Some user_id) w = (r1, w1)"
    by (cases "get_points_by_doc_id e doc_id (Some user_id) w") blast
  have "filter (matches ?F) (stored_points w) = []"
    using nm by (simp add: matches_doc_filter [OF u] filter_empty_conv)
  with get_points_by_doc_id_spec [OF g] obtain cs where
    cs: "calls w1 = calls w @ cs" "list_all (\<lambda>c. setup_call c \<or> c = Call_scroll ?F) cs"
    and sp: "stored_points w1 = stored_points w"
    and r1: "r1 = Raise VectorCollectionError \<or> r1 = Raise PointError \<or> r1 = Return []"
    by auto
  have "\<forall>c\<in>set cs. \<not> is_delete_call c"
    using cs(2) setup_not_delete by (fastforce simp: list_all_iff)
  then have nd: "\<not> list_ex is_delete_call (new_calls w w1)"
    unfolding new_calls_append [OF cs(1)] by (simp add: list_ex_iff)
  have out: "(\<exists>chunks. r1 = Return chunks) \<and>
              delete_user_document e doc_id user_id w = (Raise DocumentNotFoundError, w1) \<and>
              delete_document_endpoint e doc_id user_id w = (Some 404, w1)
            \<or> (\<exists>y. r1 = Raise y \<and> (y = VectorCollectionError \<or> y = PointError) \<and>
              delete_user_document e doc_id user_id w = (Raise y, w1) \<and>
              delete_document_endpoint e doc_id user_id w = (Some 500, w1))"
  proof (cases "r1 = Return []")
    case True
    then have "delete_user_document e doc_id user_id w = (Raise DocumentNotFoundError, w1)"
      using g by (simp add: delete_user_document_def)
    then show ?thesis
      using True by (simp add: delete_document_endpoint_def respond_def)
  next
    case False
    with r1 obtain y where y: "r1 = Raise y" "y = VectorCollectionError \<or> y = PointError"
      by blast
    then have "delete_user_document e doc_id user_id w = (Raise y, w1)"
      using g by (auto simp: delete_user_document_def)
    then show ?thesis
      using y by (auto simp: delete_document_endpoint_def respond_def)
  qed
  show ?thesis
    using g out nd sp by blast
qed

text \<open>
  The document \<open>d1\<close> belongs to \<open>u2\<close>; \<open>u1\<close> asks to delete it and gets 404, and the
  point is still there.
\<close>

theorem delete_unowned_not_found_witness:
  "get_current_user_bearer example_auth (str ''u1'') = Inr (str ''u1'', None) \<and>
   fst (delete_user_document example_env (str ''d1'') (str ''u1'')
          (stored_world [example_point (str ''d1'') (str ''u2'') 0])) =
     Raise DocumentNotFoundError \<and>
   stored_points (snd (delete_user_document example_env (str ''d1'') (str ''u1'')
          (stored_world [example_point (str ''d1'') (str ''u2'') 0]))) =
     [example_point (str ''d1'') (str ''u2'') 0] \<and>
   fst (delete_document_endpoint example_env (str ''d1'') (str ''u1'')
          (stored_world [example_point (str ''d1'') (str ''u2'') 0])) = Some 404"
proof -
  let ?W = "stored_world [example_point (str ''d1'') (str ''u2'') 0]"
  let ?D = "delete_user_document example_env (str ''d1'') (str ''u1'') ?W"
  have au: "get_current_user_bearer example_auth (str ''u1'') = Inr (str ''u1'', None)"
    by (rule authenticated_example) simp
  have sw: "stored_points ?W = [example_point (str ''d1'') (str ''u2'') 0]"
    by (simp add: stored_world_def stored_points_def)
  have nm: "\<forall>pt\<in>set (stored_points ?W).
       \<not> (p_doc_id (pt_payload pt) = str ''d1'' \<and> p_user_id (pt_payload pt) = str ''u1'')"
    unfolding sw by (simp add: example_point_def)
  from delete_unowned_not_found [OF au nm, of example_env] obtain r1 w' where
    o: "(\<exists>chunks. r1 = Return chunks) \<and>
          ?D = (Raise DocumentNotFoundError, w') \<and>
          delete_document_endpoint example_env (str ''d1'') (str ''u1'') ?W = (Some 404, w')
        \<or> (\<exists>y. r1 = Raise y \<and> (y = VectorCollectionError \<or> y = PointError) \<and>
          ?D = (Raise y, w') \<and>
          delete_document_endpoint example_env (str ''d1'') (str ''u1'') ?W = (Some 500, w'))"
    and s: "stored_points w' = stored_points ?W"
    by blast
  have x: "fst ?D = Raise DocumentNotFoundError"
    using arg_cong [OF delete_other_user_example, of fst] by (simp only: fst_conv)
  from o x have d: "?D = (Raise DocumentNotFoundError, w')"
    and ep: "delete_document_endpoint example_env (str ''d1'') (str ''u1'') ?W = (Some 404, w')"
    by auto
  show ?thesis
    using au d s ep sw by simp
qed

text \<open>
  The claim as stated promises 404 whenever no chunk matches. Here \<open>ann\<close>, an
  authenticated user, asks to delete the document of \<open>bob\<close> while the scroll of the
  lookup fails: the service raises \<open>PointError\<close> and the endpoint answers 500.
\<close>

theorem delete_unowned_not_found_counterexample:
  "get_current_user_bearer example_auth (str ''ann'') = Inr (str ''ann'', None) \<and>
   \<not> list_ex (\<lambda>pt. p_doc_id (pt_payload pt) = str ''d7'' \<and>
                  p_user_id (pt_payload pt) = str ''ann'')
        (stored_points (stored_world [example_point (str ''d7'') (str ''bob'') 0])) \<and>
   fst (delete_user_document (failing_env Op_scroll) (str ''d7'') (str ''ann'')
          (stored_world [example_point (str ''d7'') (str ''bob'') 0])) = Raise PointError \<and>
   fst (delete_document_endpoint (failing_env Op_scroll) (str ''d7'') (str ''ann'')
          (stored_world [example_point (str ''d7'') (str ''bob'') 0])) = Some 500"
  by (simp add: authenticated_example)
     (simp add: delete_user_document_def delete_document_endpoint_def respond_def
      repository_defs example_env_def failing_env_def stored_world_def example_point_def
      stored_points_def Let_def)

section \<open>Points carry their user, and searches and deletions are scoped by it\<close>

text \<open>
  Claim C3. Every point that \<^verbatim>\<open>upload_document\<close> hands to the store carries the
  user id, the generated document id, its position in the chunk sequence as
  \<^verbatim>\<open>chunk_index\<close>, and the document's full metadata; a returned upload has upserted as
  many points as it reports chunks. Every query that \<^verbatim>\<open>search_user_documents\<close> issues
  has the condition on the user id in its filter, changes no stored point, and returns
  only chunks of that user. For the user that authentication returned, every lookup and
  deletion that \<^verbatim>\<open>delete_user_document\<close> issues has the condition on the user id in
  its filter, and the points of other users are all still there afterwards.
\<close>

theorem user_scoped_points:
  "(upload_document e file user_id w = (r, w') \<longrightarrow>
      (\<forall>pts. Call_upsert pts \<in> set (new_calls w w') \<longrightarrow>
         (\<exists>fname. filename file = Some fname \<and>
            (\<forall>i<length pts.
               p_user_id (pt_payload (pts ! i)) = user_id \<and>
               p_doc_id (pt_payload (pts ! i)) = uuid4 e \<and>
               p_chunk_index (pt_payload (pts ! i)) = Some (int i) \<and>
               p_doc_metadata (pt_payload (pts ! i)) =
                 Some \<lparr>dm_doc_id = uuid4 e, dm_user_id = user_id, dm_filename = fname,
                       dm_file_type = py_lower (snd (splitext fname)),
                       dm_chunks_count = length pts, dm_created_at = utc_now e\<rparr>))) \<and>
      (\<forall>x. r = Return x \<longrightarrow>
         ur_doc_id x = uuid4 e \<and>
         (\<exists>pts. Call_upsert pts \<in> set (new_calls w w') \<and> length pts = ur_chunks_count x))) \<and>
   (search_user_documents e query top_k user_id w = (rs, ws) \<longrightarrow>
      (\<forall>flt k. Call_query_points flt k \<in> set (new_calls w ws) \<longrightarrow>
         (Key_user_id, user_id) \<in> set flt) \<and>
      stored_points ws = stored_points w \<and>
      (\<forall>hits. rs = Return hits \<longrightarrow>
         (\<forall>h\<in>set hits. \<exists>pt\<in>set (stored_points w).
            p_user_id (pt_payload pt) = user_id \<and>
            sh_doc_id h = p_doc_id (pt_payload pt) \<and>
            sh_chunk_text h = p_chunk_text (pt_payload pt)))) \<and>
   (get_current_user_bearer a credentials = Inr (user_id, email) \<longrightarrow>
    delete_user_document e doc_id user_id w = (rd, wd) \<longrightarrow>
      (\<forall>flt. Call_delete flt \<in> set (new_calls w wd) \<or> Call_scroll flt \<in> set (new_calls w wd)
         \<longrightarrow> (Key_user_id, user_id) \<in> set flt) \<and>
      (\<forall>pt\<in>set (stored_points w).
         p_user_id (pt_payload pt) \<noteq> user_id \<longrightarrow> pt \<in> set (stored_points wd)) \<and>
      set (stored_points wd) \<subseteq> set (stored_points w))"
proof (intro conjI impI)
  assume up: "upload_document e file user_id w = (r, w')"
  show "\<forall>pts. Call_upsert pts \<in> set (new_calls w w') \<longrightarrow>
         (\<exists>fname. filename file = Some fname \<and>
            (\<forall>i<length pts.
               p_user_id (pt_payload (pts ! i)) = user_id \<and>
               p_doc_id (pt_payload (pts ! i)) = uuid4 e \<and>
               p_chunk_index (pt_payload (pts ! i)) = Some (int i) \<and>
               p_doc_metadata (pt_payload (pts ! i)) =
                 Some \<lparr>dm_doc_id = uuid4 e, dm_user_id = user_id, dm_filename = fname,
                       dm_file_type = py_lower (snd (splitext fname)),
                       dm_chunks_count = length pts, dm_created_at = utc_now e\<rparr>))"
  proof (intro allI impI)
    fix pts assume "Call_upsert pts \<in> set (new_calls w w')"
    with upload_upserts [OF up] obtain fname cd where
      f: "filename file = Some fname" and p: "pts = points_of_upload e user_id fname cd"
      by blast
    have "\<forall>i<length pts.
               p_user_id (pt_payload (pts ! i)) = user_id \<and>
               p_doc_id (pt_payload (pts ! i)) = uuid4 e \<and>
               p_chunk_index (pt_payload (pts ! i)) = Some (int i) \<and>
               p_doc_metadata (pt_payload (pts ! i)) =
                 Some \<lparr>dm_doc_id = uuid4 e, dm_user_id = user_id, dm_filename = fname,
                       dm_file_type = py_lower (snd (splitext fname)),
                       dm_chunks_count = length pts, dm_created_at = utc_now e\<rparr>"
      unfolding p using payload_points_of_upload [of _ cd e user_id fname] by simp
    with f show "\<exists>fname. filename file = Some fname \<and>
            (\<forall>i<length pts.
               p_user_id (pt_payload (pts ! i)) = user_id \<and>
               p_doc_id (pt_payload (pts ! i)) = uuid4 e \<and>
               p_chunk_index (pt_payload (pts ! i)) = Some (int i) \<and>
               p_doc_metadata (pt_payload (pts ! i)) =
                 Some \<lparr>dm_doc_id = uuid4 e, dm_user_id = user_id, dm_filename = fname,
                       dm_file_type = py_lower (snd (splitext fname)),
                       dm_chunks_count = length pts, dm_created_at = utc_now e\<rparr>)"
      by blast
  qed
  show "\<forall>x. r = Return x \<longrightarrow>
         ur_doc_id x = uuid4 e \<and>
         (\<exists>pts. Call_upsert pts \<in> set (new_calls w w') \<and> length pts = ur_chunks_count x)"
    using upload_upserts [OF up] by (rule conjunct2)
next
  assume s: "search_user_documents e query top_k user_id w = (rs, ws)"
  from search_scoped [OF s]
  show "\<forall>flt k. Call_query_points flt k \<in> set (new_calls w ws) \<longrightarrow>
         (Key_user_id, user_id) \<in> set flt"
    and "stored_points ws = stored_points w"
    and "\<forall>hits. rs = Return hits \<longrightarrow>
         (\<forall>h\<in>set hits. \<exists>pt\<in>set (stored_points w).
            p_user_id (pt_payload pt) = user_id \<and>
            sh_doc_id h = p_doc_id (pt_payload pt) \<and>
            sh_chunk_text h = p_chunk_text (pt_payload pt))"
    by blast+
next
  assume "get_current_user_bearer a credentials = Inr (user_id, email)"
    and d: "delete_user_document e doc_id user_id w = (rd, wd)"
  then have u: "user_id \<noteq> []"
    by (simp add: authenticated_user_not_empty)
  from delete_scoped [OF u d]
  show "\<forall>flt. Call_delete flt \<in> set (new_calls w wd) \<or> Call_scroll flt \<in> set (new_calls w wd)
         \<longrightarrow> (Key_user_id, user_id) \<in> set flt"
    and "\<forall>pt\<in>set (stored_points w).
         p_user_id (pt_payload pt) \<noteq> user_id \<longrightarrow> pt \<in> set (stored_points wd)"
    and "set (stored_points wd) \<subseteq> set (stored_points w)"
    by blast+
qed

text \<open>
  An upload of four words by \<open>u1\<close> stores two points of \<open>u1\<close> with the indices 0 and
  1; a deletion of \<open>d1\<close> by \<open>u1\<close> leaves the chunk that \<open>u2\<close> has under the same
  document id.
\<close>

theorem user_scoped_points_witness:
  "fst (upload_document example_env example_file (str ''u1'') fresh_world) =
     Return \<lparr>ur_doc_id = str ''doc-1'', ur_filename = str ''a.txt'', ur_file_type = str ''.txt'',
             ur_chunks_count = 2\<rparr> \<and>
   map (\<lambda>p. (p_user_id (pt_payload p), p_doc_id (pt_payload p), p_chunk_index (pt_payload p)))
     (stored_points (snd (upload_document example_env example_file (str ''u1'') fresh_world))) =
     [(str ''u1'', str ''doc-1'', Some 0), (str ''u1'', str ''doc-1'', Some 1)] \<and>
   stored_points (snd (delete_user_document example_env (str ''d1'') (str ''u1'')
      (stored_world [example_point (str ''d1'') (str ''u1'') 0,
                     example_point (str ''d1'') (str ''u2'') 0]))) =
     [example_point (str ''d1'') (str ''u2'') 0] \<and>
   example_point (str ''d1'') (str ''u2'') 0 \<in>
     set (stored_points (snd (delete_user_document example_env (str ''d1'') (str ''u1'')
      (stored_world [example_point (str ''d1'') (str ''u1'') 0,
                     example_point (str ''d1'') (str ''u2'') 0]))))"
proof -
  let ?W = "stored_world [example_point (str ''d1'') (str ''u1'') 0,
                     example_point (str ''d1'') (str ''u2'') 0]"
  let ?D = "delete_user_document example_env (str ''d1'') (str ''u1'') ?W"
  have u: "get_current_user_bearer example_auth (str ''u1'') = Inr (str ''u1'', None)"
    by (rule authenticated_example) simp
  have d: "?D = (fst ?D, snd ?D)"
    by simp
  have m: "example_point (str ''d1'') (str ''u2'') 0 \<in> set (stored_points ?W)"
    by (simp add: stored_world_def stored_points_def)
  have o: "p_user_id (pt_payload (example_point (str ''d1'') (str ''u2'') 0)) \<noteq> str ''u1''"
    by (simp add: example_point_def)
  from user_scoped_points [where e = example_env and user_id = "str ''u1''" and w = ?W
      and a = example_auth and credentials = "str ''u1''" and email = None
      and doc_id = "str ''d1''" and rd = "fst ?D" and wd = "snd ?D"] u d
  have "\<forall>pt\<in>set (stored_points ?W).
         p_user_id (pt_payload pt) \<noteq> str ''u1'' \<longrightarrow> pt \<in> set (stored_points (snd ?D))"
    by blast
  with m o have k: "example_point (str ''d1'') (str ''u2'') 0 \<in> set (stored_points (snd ?D))"
    by blast
  show ?thesis
    using upload_example delete_own_example k by (intro conjI) simp_all
qed

section \<open>The dimension of the stored vectors\<close>




end
